theory Spec2Isabelle
  imports Main
begin



section \<open>Configuration constants of lru\_proxy\_with\_cache.c\<close>

text \<open>
  The macros of the source.  \<open>MAX_SIZE\<close> is \<open>200*(1<<20)\<close> and
  \<open>MAX_ELEMENT_SIZE\<close> is \<open>10*(1<<20)\<close>; the redefinition in the C file
  overrides the 2048 of proxy\_parse.h.  \<open>sizeof(cache_element)\<close> is 64 on
  the LP64 layout (four pointers, two \<open>time_t\<close> and two \<open>int\<close> padded
  to 8 bytes).  All C \<open>int\<close> and \<open>time_t\<close> values are modelled as
  \<open>int\<close>; the invariants proved below keep \<open>cache_size\<close> between 0 and
  \<open>MAX_SIZE\<close>, far from the 32-bit limits.
\<close>

definition MAX_BYTES :: nat where
  "MAX_BYTES = 8192"

definition MAX_CLIENTS :: int where
  "MAX_CLIENTS = 1200"

definition MAX_SIZE :: int where
  "MAX_SIZE = 200 * 2 ^ 20"

definition MAX_ELEMENT_SIZE :: int where
  "MAX_ELEMENT_SIZE = 10 * 2 ^ 20"

definition QUEUE_SIZE :: int where
  "QUEUE_SIZE = 2000"

definition THREAD_POOL_SIZE :: nat where
  "THREAD_POOL_SIZE = 50"

definition sizeof_cache_element :: int where
  "sizeof_cache_element = 64"

section \<open>The LRU cache\<close>

text \<open>
  \<open>struct cache_element\<close>.  A \<open>char*\<close> string is the list of its bytes
  before the terminating NUL.  The \<open>next\<close>/\<open>prev\<close> links are the position
  of the element in the list \<open>cache_list\<close>, which is the chain from
  \<open>cache_head\<close> along \<open>next\<close> to \<open>cache_tail\<close>; walking \<open>prev\<close> from
  \<open>cache_tail\<close> reads the same list backwards.
\<close>

record cache_element =
  data :: string
  len :: int
  url :: string
  lru_time_track :: int
  creation_time :: int
  access_count :: int

text \<open>
  The globals of the cache and the counters of \<open>stats\<close> that the cache
  functions touch.  (\<open>stats.avg_response_time\<close> is a \<open>double\<close> and is left
  out.)
\<close>

record cache_globals =
  cache_list :: "cache_element list"
  cache_size :: int
  stats_total_requests :: int
  stats_cache_hits :: int
  stats_cache_misses :: int
  stats_bytes_served :: int

definition init_cache :: cache_globals where
  "init_cache = \<lparr>cache_list = [], cache_size = 0, stats_total_requests = 0,
     stats_cache_hits = 0, stats_cache_misses = 0, stats_bytes_served = 0\<rparr>"

text \<open>
  The \<open>while (current != NULL)\<close> loop of \<open>find_in_cache\<close>: the index of the
  first element from the head whose \<open>url\<close> compares equal (\<open>strcmp == 0\<close>).
\<close>

fun find_index_from :: "string \<Rightarrow> cache_element list \<Rightarrow> nat \<Rightarrow> nat option" where
  "find_index_from u [] i = None"
| "find_index_from u (current # rest) i =
     (if url current = u then Some i else find_index_from u rest (Suc i))"

text \<open>Unlinking the node at position \<open>i\<close> from the doubly linked list.\<close>

definition unlink :: "nat \<Rightarrow> 'a list \<Rightarrow> 'a list" where
  "unlink i xs = take i xs @ drop (Suc i) xs"

text \<open>
  \<open>find_in_cache\<close>, run by one thread: \<open>now\<close> is the value of
  \<open>time(NULL)\<close>.  Between the read lock and the write lock nothing changes,
  so the re-check of \<open>strcmp\<close> is the same test again.  The result is the
  element returned (\<open>None\<close> for \<open>NULL\<close>) and the new globals.
\<close>

definition find_in_cache :: "int \<Rightarrow> string \<Rightarrow> cache_globals \<Rightarrow> cache_element option \<times> cache_globals" where
  "find_in_cache now u s =
     (case find_index_from u (cache_list s) 0 of
        None \<Rightarrow> (None, s\<lparr>stats_cache_misses := stats_cache_misses s + 1\<rparr>)
      | Some i \<Rightarrow>
          (let current = cache_list s ! i in
           if url current = u then
             (let current' = current\<lparr>lru_time_track := now,
                                     access_count := access_count current + 1\<rparr>;
                  chain = (if i \<noteq> 0 then current' # unlink i (cache_list s)
                           else (cache_list s)[i := current'])
              in (Some current',
                  s\<lparr>cache_list := chain, stats_cache_hits := stats_cache_hits s + 1\<rparr>))
           else (None, s)))"

text \<open>
  The scan of \<open>remove_lru_element\<close>: it walks from \<open>cache_tail\<close> along
  \<open>prev\<close>, so the list argument is the chain reversed and \<open>i\<close> counts the
  steps from the tail.  \<open>lru\<close> is the position (from the tail) of the
  candidate, \<open>oldest_time\<close> its time stamp; only a strictly older element
  replaces the candidate.  \<open>lru_position\<close> is the position of the element
  found, counted from the head.
\<close>

fun scan_prev :: "cache_element list \<Rightarrow> nat \<Rightarrow> nat \<Rightarrow> int \<Rightarrow> nat" where
  "scan_prev [] i lru oldest_time = lru"
| "scan_prev (current # rest) i lru oldest_time =
     (if lru_time_track current < oldest_time
      then scan_prev rest (Suc i) i (lru_time_track current)
      else scan_prev rest (Suc i) lru oldest_time)"

definition lru_position :: "cache_element list \<Rightarrow> nat" where
  "lru_position xs =
     length xs - 1 - scan_prev (rev xs) 0 0 (lru_time_track (last xs))"

definition element_bytes :: "cache_element \<Rightarrow> int" where
  "element_bytes e = len e + int (length (url e)) + sizeof_cache_element"

definition remove_lru_element :: "cache_globals \<Rightarrow> cache_globals" where
  "remove_lru_element s =
     (if cache_list s = [] then s
      else (let i = lru_position (cache_list s);
                lru = cache_list s ! i
            in s\<lparr>cache_list := unlink i (cache_list s),
                 cache_size := cache_size s - element_bytes lru\<rparr>))"

text \<open>
  The loop \<open>while (cache_size + element_size > MAX_SIZE && cache_tail)\<close> of
  \<open>add_to_cache\<close>; releasing and retaking the write lock around
  \<open>remove_lru_element\<close> changes nothing for one thread.
\<close>

function make_space :: "int \<Rightarrow> cache_globals \<Rightarrow> cache_globals" where
  "make_space element_size s =
     (if cache_size s + element_size > MAX_SIZE \<and> cache_list s \<noteq> []
      then make_space element_size (remove_lru_element s)
      else s)"
  by pat_completeness auto
termination
proof (relation "measure (\<lambda>(element_size, s). length (cache_list s))")
  fix element_size :: int and s :: cache_globals
  assume "MAX_SIZE < cache_size s + element_size \<and> cache_list s \<noteq> []"
  then have ne: "cache_list s \<noteq> []" by simp
  then have "lru_position (cache_list s) < length (cache_list s)"
    by (simp add: lru_position_def)
  then have "length (cache_list (remove_lru_element s)) < length (cache_list s)"
    using ne by (simp add: remove_lru_element_def Let_def unlink_def)
  then show "((element_size, remove_lru_element s), (element_size, s))
      \<in> measure (\<lambda>(element_size, s). length (cache_list s))"
    by simp
qed simp

declare make_space.simps [simp del]

text \<open>
  \<open>add_to_cache(data, size, url)\<close>.  The list \<open>dat\<close> is the \<open>size\<close>
  bytes at \<open>data\<close>, so \<open>size\<close> is its length (the only caller passes
  the bytes it captured and their count).  \<open>malloc_ok\<close> says whether the
  three allocations succeed, \<open>now\<close> and \<open>now'\<close> are the two readings of
  \<open>time(NULL)\<close>.  The result is the return value (1 stored, 0 not stored)
  and the new globals.  The function never looks for an element that already
  has this \<open>url\<close>.
\<close>

definition add_to_cache ::
  "bool \<Rightarrow> int \<Rightarrow> int \<Rightarrow> string \<Rightarrow> string \<Rightarrow> cache_globals \<Rightarrow> int \<times> cache_globals" where
  "add_to_cache malloc_ok now now' dat u s =
     (let element_size = int (length dat) + int (length u) + sizeof_cache_element in
      if element_size > MAX_ELEMENT_SIZE then (0, s)
      else
        (let s1 = make_space element_size s in
         if \<not> malloc_ok then (0, s1)
         else
           (let element = \<lparr>data = dat, len = int (length dat), url = u,
                            lru_time_track = now, creation_time = now',
                            access_count = 1\<rparr>
            in (1, s1\<lparr>cache_list := element # cache_list s1,
                       cache_size := cache_size s1 + element_size\<rparr>))))"

subsection \<open>Quantities the cache properties are stated with\<close>

text \<open>
  The footprint of the live elements: the sum over the chain from
  \<open>cache_head\<close> of \<open>len + strlen(url) + sizeof(cache_element)\<close>.
\<close>

definition total_bytes :: "cache_element list \<Rightarrow> int" where
  "total_bytes xs = sum_list (map element_bytes xs)"

definition cache_size_exact :: "cache_globals \<Rightarrow> bool" where
  "cache_size_exact s = (cache_size s = total_bytes (cache_list s))"

fun count_key :: "string \<Rightarrow> cache_element list \<Rightarrow> nat" where
  "count_key k [] = 0"
| "count_key k (e # es) = (if url e = k then Suc (count_key k es) else count_key k es)"


text \<open>
  A run of the cache: every operation with the values it gets from its
  caller and from the system (allocation result, clock).
\<close>

datatype cache_op =
    Insert bool int int string string
  | Evict
  | Lookup int string

fun apply_op :: "cache_globals \<Rightarrow> cache_op \<Rightarrow> cache_globals" where
  "apply_op s (Insert malloc_ok now now' dat u) =
     snd (add_to_cache malloc_ok now now' dat u s)"
| "apply_op s Evict = remove_lru_element s"
| "apply_op s (Lookup now u) = snd (find_in_cache now u s)"

definition run_ops :: "cache_op list \<Rightarrow> cache_globals" where
  "run_ops ops = foldl apply_op init_cache ops"


section \<open>C strings\<close>

definition NUL :: char where
  "NUL = CHR 0x00"

definition CR :: char where
  "CR = CHR 0x0D"

definition LF :: char where
  "LF = CHR 0x0A"

text \<open>
  The string a \<open>char\<close> array holds: its bytes before the first NUL.  An
  array is the list of the bytes written to it; every byte behind them is 0
  (the request buffer comes from \<open>calloc\<close> and is never filled to its last
  byte).
\<close>

definition c_str :: "string \<Rightarrow> string" where
  "c_str b = takeWhile (\<lambda>c. c \<noteq> NUL) b"

definition strlen :: "string \<Rightarrow> nat" where
  "strlen b = length (c_str b)"

fun starts_with :: "string \<Rightarrow> string \<Rightarrow> bool" where
  "starts_with [] s = True"
| "starts_with (p # ps) [] = False"
| "starts_with (p # ps) (c # cs) = (p = c \<and> starts_with ps cs)"

text \<open>\<open>strstr\<close> and \<open>strchr\<close>: the offset of the first occurrence, \<open>None\<close> for \<open>NULL\<close>.\<close>

fun strstr :: "string \<Rightarrow> string \<Rightarrow> nat option" where
  "strstr [] needle = (if needle = [] then Some 0 else None)"
| "strstr (c # cs) needle =
     (if starts_with needle (c # cs) then Some 0 else map_option Suc (strstr cs needle))"

fun strchr :: "string \<Rightarrow> char \<Rightarrow> nat option" where
  "strchr [] x = None"
| "strchr (c # cs) x = (if c = x then Some 0 else map_option Suc (strchr cs x))"

definition isspace :: "char \<Rightarrow> bool" where
  "isspace c = (c \<in> set [CHR '' '', CHR 0x09, CHR 0x0A, CHR 0x0B, CHR 0x0C, CHR 0x0D])"

definition tolower :: "char \<Rightarrow> char" where
  "tolower c =
     (let n = (of_char c :: nat) in if 65 \<le> n \<and> n \<le> 90 then char_of (n + 32) else c)"

definition strcasecmp_eq :: "string \<Rightarrow> string \<Rightarrow> bool" where
  "strcasecmp_eq a b = (map tolower a = map tolower b)"

text \<open>\<open>printf\<close>'s \<open>%d\<close> for a number that is not negative.\<close>

fun decimal :: "nat \<Rightarrow> string" where
  "decimal n =
     (if n < 10 then [''0123456789'' ! n]
      else decimal (n div 10) @ [''0123456789'' ! (n mod 10)])"

declare decimal.simps [simp del]

text \<open>
  \<open>atoi\<close>: white space, an optional sign, then digits up to the first other
  character.
\<close>

definition is_digit :: "char \<Rightarrow> bool" where
  "is_digit c = (48 \<le> (of_char c :: nat) \<and> (of_char c :: nat) \<le> 57)"

fun atoi_digits :: "int \<Rightarrow> string \<Rightarrow> int" where
  "atoi_digits acc [] = acc"
| "atoi_digits acc (c # cs) =
     (if is_digit c then atoi_digits (acc * 10 + (int (of_char c) - 48)) cs else acc)"

definition atoi :: "string \<Rightarrow> int" where
  "atoi s =
     (case dropWhile isspace s of
        [] \<Rightarrow> 0
      | c # cs \<Rightarrow>
          if c = CHR ''-'' then - atoi_digits 0 cs
          else if c = CHR ''+'' then atoi_digits 0 cs
          else atoi_digits 0 (c # cs))"

section \<open>What a thread does to the outside\<close>

text \<open>
  The calls a thread makes on socket descriptors and on the condition
  variable \<open>connection_available\<close>, in the order it makes them.  \<open>Send fd bs\<close>
  is a \<open>send\<close> of the bytes \<open>bs\<close> on \<open>fd\<close>.  What is written to an
  upstream socket is not recorded, and neither are the calls
  \<open>connectRemoteServer\<close> makes on a descriptor it has just created and does
  not return.
\<close>

datatype event =
    Send int string
  | Shutdown int
  | Close int
  | Signal_connection_available

section \<open>sendErrorMessage\<close>

text \<open>
  The \<open>switch\<close>: status text and HTML body for the six codes it knows,
  \<open>None\<close> for the \<open>default\<close> branch, which returns -1 at once.
\<close>

definition error_page :: "int \<Rightarrow> (string \<times> string) option" where
  "error_page status_code =
     (if status_code = 400 then
        Some (''Bad Request'',
          ''<HTML><HEAD><TITLE>400 Bad Request</TITLE></HEAD>'' @ [LF] @
          ''<BODY><H1>400 Bad Request</H1>'' @ [LF] @ ''</BODY></HTML>'')
      else if status_code = 403 then
        Some (''Forbidden'',
          ''<HTML><HEAD><TITLE>403 Forbidden</TITLE></HEAD>'' @ [LF] @
          ''<BODY><H1>403 Forbidden</H1><br>Permission Denied'' @ [LF] @ ''</BODY></HTML>'')
      else if status_code = 404 then
        Some (''Not Found'',
          ''<HTML><HEAD><TITLE>404 Not Found</TITLE></HEAD>'' @ [LF] @
          ''<BODY><H1>404 Not Found</H1>'' @ [LF] @ ''</BODY></HTML>'')
      else if status_code = 500 then
        Some (''Internal Server Error'',
          ''<HTML><HEAD><TITLE>500 Internal Server Error</TITLE></HEAD>'' @ [LF] @
          ''<BODY><H1>500 Internal Server Error</H1>'' @ [LF] @ ''</BODY></HTML>'')
      else if status_code = 501 then
        Some (''Not Implemented'',
          ''<HTML><HEAD><TITLE>501 Not Implemented</TITLE></HEAD>'' @ [LF] @
          ''<BODY><H1>501 Not Implemented</H1>'' @ [LF] @ ''</BODY></HTML>'')
      else if status_code = 505 then
        Some (''HTTP Version Not Supported'',
          ''<HTML><HEAD><TITLE>505 HTTP Version Not Supported</TITLE></HEAD>'' @ [LF] @
          ''<BODY><H1>505 HTTP Version Not Supported</H1>'' @ [LF] @ ''</BODY></HTML>'')
      else None)"

text \<open>
  The text \<open>snprintf\<close> leaves in \<open>str[2048]\<close>; \<open>currentTime\<close> is the
  output of \<open>strftime\<close>.
\<close>

definition error_response :: "string \<Rightarrow> int \<Rightarrow> string option" where
  "error_response currentTime status_code =
     (case error_page status_code of
        None \<Rightarrow> None
      | Some (status_text, html_content) \<Rightarrow>
          Some (take 2047
            (''HTTP/1.1 '' @ decimal (nat status_code) @ '' '' @ status_text @ [CR, LF] @
             ''Content-Length: '' @ decimal (length html_content) @ [CR, LF] @
             ''Content-Type: text/html'' @ [CR, LF] @
             ''Connection: keep-alive'' @ [CR, LF] @
             ''Date: '' @ currentTime @ [CR, LF] @
             ''Server: HighPerformanceProxy/2.0'' @ [CR, LF] @
             [CR, LF] @ html_content)))"

text \<open>
  \<open>sendErrorMessage(socket, status_code)\<close>: the calls it makes.  No caller
  reads its return value.
\<close>

definition sendErrorMessage :: "string \<Rightarrow> int \<Rightarrow> int \<Rightarrow> event list" where
  "sendErrorMessage currentTime socket status_code =
     (case error_response currentTime status_code of
        None \<Rightarrow> []
      | Some str \<Rightarrow> [Send socket str])"

section \<open>Receiving from a socket\<close>

text \<open>
  What a peer does on a connection, in order: it delivers some bytes, or the
  connection fails.  When the list is used up the peer has closed.
  \<open>recv n\<close> is one call of \<open>recv\<close> with room for \<open>n\<close> bytes: its return
  value, the bytes it stored, and what the peer still has to deliver.  A
  call cannot return more than \<open>n\<close> bytes; the rest stays for the next call.
\<close>

datatype recv_event = Bytes string | Error

fun recv :: "nat \<Rightarrow> recv_event list \<Rightarrow> int \<times> string \<times> recv_event list" where
  "recv n [] = (0, [], [])"
| "recv n (Error # rest) = (- 1, [], rest)"
| "recv n (Bytes bs # rest) =
     (if n = 0 then (0, [], Bytes bs # rest)
      else if length bs \<le> n then (int (length bs), bs, rest)
      else (int n, take n bs, Bytes (drop n bs) # rest))"

fun pending :: "recv_event list \<Rightarrow> nat" where
  "pending [] = 0"
| "pending (Error # rest) = Suc (pending rest)"
| "pending (Bytes bs # rest) = Suc (length bs + pending rest)"

text \<open>Storing \<open>bs\<close> in an array at offset \<open>off\<close>.\<close>

definition store :: "string \<Rightarrow> nat \<Rightarrow> string \<Rightarrow> string" where
  "store b off bs = take off b @ bs @ drop (off + length bs) b"

section \<open>The request parser (proxy\_parse.c)\<close>

text \<open>
  \<open>struct ParsedRequest\<close>; a field is \<open>None\<close> while it is \<open>NULL\<close>
  (\<open>method'\<close> is the field \<open>method\<close>).
  \<open>headers\<close> is the linked list from \<open>pr->headers\<close>, newest first.  The
  allocations of the parser are taken to succeed.
\<close>

record ParsedRequest =
  method' :: "string option"
  protocol :: "string option"
  host :: "string option"
  port :: "string option"
  path :: "string option"
  version :: "string option"
  headers :: "(string \<times> string) list"

definition ParsedRequest_create :: ParsedRequest where
  "ParsedRequest_create = \<lparr>method' = None, protocol = None, host = None, port = None,
     path = None, version = None, headers = []\<rparr>"

text \<open>
  Cutting the next line off: at the first CR LF of the text if there is one,
  else at the first LF.  The result is the line and the text behind its end.
\<close>

definition split_line :: "string \<Rightarrow> (string \<times> string) option" where
  "split_line s =
     (case strstr s [CR, LF] of
        Some i \<Rightarrow> Some (take i s, drop (i + 2) s)
      | None \<Rightarrow>
          (case strstr s [LF] of
             Some i \<Rightarrow> Some (take i s, drop (i + 1) s)
           | None \<Rightarrow> None))"

definition trim_whitespace :: "string \<Rightarrow> string" where
  "trim_whitespace s = rev (dropWhile isspace (rev (dropWhile isspace s)))"

text \<open>The URL of the request line.\<close>

definition parse_url :: "string \<Rightarrow> ParsedRequest \<Rightarrow> ParsedRequest" where
  "parse_url u pr =
     (if take 7 u = ''http://'' then
        (let host_start = drop 7 u;
             host_end = strchr host_start (CHR ''/'');
             port_start = strchr host_start (CHR '':'')
         in case port_start of
              Some c \<Rightarrow>
                (case host_end of
                   None \<Rightarrow>
                     pr\<lparr>protocol := Some ''http'', host := Some (take c host_start),
                        port := Some (drop (Suc c) host_start), path := Some ''/''\<rparr>
                 | Some e \<Rightarrow>
                     if c < e then
                       pr\<lparr>protocol := Some ''http'', host := Some (take c host_start),
                          port := Some (take (e - Suc c) (drop (Suc c) host_start)),
                          path := Some (drop (Suc e) host_start)\<rparr>
                     else
                       pr\<lparr>protocol := Some ''http'', host := Some (take e host_start),
                          path := Some (drop (Suc e) host_start), port := Some ''80''\<rparr>)
            | None \<Rightarrow>
                (case host_end of
                   Some e \<Rightarrow>
                     pr\<lparr>protocol := Some ''http'', host := Some (take e host_start),
                        path := Some (drop (Suc e) host_start), port := Some ''80''\<rparr>
                 | None \<Rightarrow>
                     pr\<lparr>protocol := Some ''http'', host := Some host_start,
                        path := Some ''/'', port := Some ''80''\<rparr>))
      else pr\<lparr>path := Some u\<rparr>)"

text \<open>The header loop: \<open>s\<close> is the text from \<open>line_start\<close> on.\<close>

function parse_headers :: "string \<Rightarrow> (string \<times> string) list \<Rightarrow> (string \<times> string) list" where
  "parse_headers s hs =
     (if s = [] then hs
      else
        (case split_line s of
           None \<Rightarrow> hs
         | Some (line, rest) \<Rightarrow>
             if line = [] then hs
             else
               (case strchr line (CHR '':'') of
                  Some j \<Rightarrow>
                    parse_headers rest
                      ((trim_whitespace (take j line), trim_whitespace (drop (Suc j) line)) # hs)
                | None \<Rightarrow> parse_headers rest hs)))"
  by pat_completeness auto
termination
proof (relation "measure (\<lambda>(s, hs). length s)")
  show "wf (measure (\<lambda>(s, hs). length s))" by simp
next
  fix s :: string and hs :: "(string \<times> string) list" and x2 x y
  assume "s \<noteq> []" and "split_line s = Some x2" and "(x, y) = x2"
  then have "length y < length s"
    by (auto simp: split_line_def split: option.splits)
  then show "((y, hs), (s, hs)) \<in> measure (\<lambda>(s, hs). length s)" by simp
next
  fix s :: string and hs :: "(string \<times> string) list" and x2 x y x2a
  assume "s \<noteq> []" and "split_line s = Some x2" and "(x, y) = x2"
  then have "length y < length s"
    by (auto simp: split_line_def split: option.splits)
  then show "((y, (trim_whitespace (take x2a x), trim_whitespace (drop (Suc x2a) x)) # hs), (s, hs))
      \<in> measure (\<lambda>(s, hs). length s)" by simp
qed

declare parse_headers.simps [simp del]

fun ParsedRequest_getHeader :: "(string \<times> string) list \<Rightarrow> string \<Rightarrow> string option" where
  "ParsedRequest_getHeader [] name = None"
| "ParsedRequest_getHeader ((n, v) # rest) name =
     (if strcasecmp_eq n name then Some v else ParsedRequest_getHeader rest name)"

text \<open>The last part of the parser: the host from the \<open>Host\<close> header.\<close>

definition host_from_header :: "ParsedRequest \<Rightarrow> ParsedRequest" where
  "host_from_header pr =
     (case host pr of
        Some h \<Rightarrow> pr
      | None \<Rightarrow>
          (case ParsedRequest_getHeader (headers pr) ''Host'' of
             None \<Rightarrow> pr
           | Some host_header \<Rightarrow>
               (case strchr host_header (CHR '':'') of
                  Some c \<Rightarrow>
                    pr\<lparr>host := Some (take c host_header),
                       port := Some (drop (Suc c) host_header)\<rparr>
                | None \<Rightarrow>
                    (case port pr of
                       None \<Rightarrow> pr\<lparr>host := Some host_header, port := Some ''80''\<rparr>
                     | Some p \<Rightarrow> pr\<lparr>host := Some host_header\<rparr>))))"

text \<open>
  \<open>ParsedRequest_parse(pr, buf, buflen)\<close> for a \<open>pr\<close> fresh from
  \<open>ParsedRequest_create\<close>, with \<open>buflen = strlen(buf)\<close> as the worker calls
  it: \<open>None\<close> for the return value -1, the filled request for 0.
\<close>

definition ParsedRequest_parse :: "string \<Rightarrow> ParsedRequest option" where
  "ParsedRequest_parse buf =
     (if buf = [] then None
      else
        (case split_line buf of
           None \<Rightarrow> None
         | Some (line, rest) \<Rightarrow>
             (case strchr line (CHR '' '') of
                None \<Rightarrow> None
              | Some method_end \<Rightarrow>
                  (let path_start = drop (Suc method_end) line in
                   case strchr path_start (CHR '' '') of
                     None \<Rightarrow> None
                   | Some path_end \<Rightarrow>
                       (let pr1 = parse_url (take path_end path_start)
                                    (ParsedRequest_create\<lparr>method' := Some (take method_end line)\<rparr>);
                            pr2 = pr1\<lparr>version := Some (drop (Suc path_end) path_start)\<rparr>;
                            pr3 = pr2\<lparr>headers := parse_headers rest []\<rparr>
                        in Some (host_from_header pr3))))))"

section \<open>The connection pool\<close>

text \<open>
  \<open>struct connection_pool\<close>: slot \<open>i\<close> holds \<open>sockets[i]\<close>, \<open>hosts[i]\<close>,
  \<open>ports[i]\<close> and \<open>last_used[i]\<close>; the list has \<open>capacity\<close> slots and
  \<open>pool_size\<close> is the field \<open>size\<close>.  \<open>strdup\<close> is taken to succeed.
\<close>

record pool_slot =
  slot_socket :: int
  slot_host :: "string option"
  slot_port :: int
  slot_last_used :: int

record connection_pool =
  slots :: "pool_slot list"
  pool_size :: nat

definition init_connection_pool :: connection_pool where
  "init_connection_pool =
     \<lparr>slots = replicate 100 \<lparr>slot_socket = - 1, slot_host = None, slot_port = 0,
                               slot_last_used = 0\<rparr>,
      pool_size = 0\<rparr>"

text \<open>
  The loop of \<open>get_pooled_connection\<close> over the slots below \<open>size\<close>: the
  socket returned (-1 for none), the stale sockets closed on the way, and the
  slots afterwards.
\<close>

fun get_pooled_scan ::
  "int \<Rightarrow> string \<Rightarrow> int \<Rightarrow> pool_slot list \<Rightarrow> int \<times> event list \<times> pool_slot list" where
  "get_pooled_scan now host_addr port_num [] = (- 1, [], [])"
| "get_pooled_scan now host_addr port_num (sl # rest) =
     (if slot_socket sl > 0 \<and> slot_host sl = Some host_addr \<and> slot_port sl = port_num then
        (if now - slot_last_used sl < 60 then
           (slot_socket sl, [], sl\<lparr>slot_socket := - 1, slot_host := None\<rparr> # rest)
         else
           (case get_pooled_scan now host_addr port_num rest of
              (r, ev, rest') \<Rightarrow>
                (r, Close (slot_socket sl) # ev,
                 sl\<lparr>slot_socket := - 1, slot_host := None\<rparr> # rest')))
      else
        (case get_pooled_scan now host_addr port_num rest of
           (r, ev, rest') \<Rightarrow> (r, ev, sl # rest')))"

definition get_pooled_connection ::
  "int \<Rightarrow> string \<Rightarrow> int \<Rightarrow> connection_pool \<Rightarrow> int \<times> event list \<times> connection_pool" where
  "get_pooled_connection now host_addr port_num p =
     (case get_pooled_scan now host_addr port_num (take (pool_size p) (slots p)) of
        (r, ev, front) \<Rightarrow> (r, ev, p\<lparr>slots := front @ drop (pool_size p) (slots p)\<rparr>))"

text \<open>
  The loop of \<open>return_pooled_connection\<close> over all slots: the index of the
  first free slot and the slots with the connection stored there.
\<close>

fun return_scan :: "pool_slot \<Rightarrow> pool_slot list \<Rightarrow> nat \<Rightarrow> (nat \<times> pool_slot list) option" where
  "return_scan new [] i = None"
| "return_scan new (sl # rest) i =
     (if slot_socket sl = - 1 then Some (i, new # rest)
      else map_option (\<lambda>(j, r). (j, sl # r)) (return_scan new rest (Suc i)))"

definition return_pooled_connection ::
  "int \<Rightarrow> int \<Rightarrow> string \<Rightarrow> int \<Rightarrow> connection_pool \<Rightarrow> event list \<times> connection_pool" where
  "return_pooled_connection now sockfd host_addr port_num p =
     (case return_scan \<lparr>slot_socket = sockfd, slot_host = Some host_addr,
                        slot_port = port_num, slot_last_used = now\<rparr> (slots p) 0 of
        Some (i, sls) \<Rightarrow>
          ([], p\<lparr>slots := sls, pool_size := (if i \<ge> pool_size p then i + 1 else pool_size p)\<rparr>)
      | None \<Rightarrow> ([Close sockfd], p))"

section \<open>Globals, work queue and admission\<close>

record work_item =
  item_socket :: int
  item_addr :: nat

text \<open>
  \<open>request_queue\<close> is the chain from \<open>head\<close> to \<open>tail\<close>; its field
  \<open>count\<close> is the length of the chain.
\<close>

record globals =
  cache :: cache_globals
  conn_pool :: connection_pool
  request_queue :: "work_item list"
  active_connection_count :: int
  server_running :: bool

definition init_globals :: globals where
  "init_globals = \<lparr>cache = init_cache, conn_pool = init_connection_pool,
     request_queue = [], active_connection_count = 0, server_running = True\<rparr>"

text \<open>
  A call that waits on a condition variable does not return in the state it
  is made in: \<open>Blocks\<close>.  The thread tries again when the state has changed.
\<close>

datatype 'a blocking = Blocks | Returns 'a

definition enqueue_request ::
  "bool \<Rightarrow> int \<Rightarrow> nat \<Rightarrow> work_item list \<Rightarrow> (event list \<times> work_item list) blocking" where
  "enqueue_request malloc_ok sockfd addr q =
     (if \<not> malloc_ok then Returns ([Close sockfd], q)
      else if int (length q) \<ge> QUEUE_SIZE then Blocks
      else Returns ([], q @ [\<lparr>item_socket = sockfd, item_addr = addr\<rparr>]))"

definition dequeue_request ::
  "bool \<Rightarrow> work_item list \<Rightarrow> (work_item option \<times> work_item list) blocking" where
  "dequeue_request running q =
     (if int (length q) = 0 \<and> running then Blocks
      else if \<not> running then Returns (None, q)
      else (case q of
              item # rest \<Rightarrow> Returns (Some item, rest)
            | [] \<Rightarrow> Blocks))"

text \<open>
  \<open>signal_handler\<close> clears \<open>server_running\<close> and wakes the threads waiting
  on \<open>not_empty\<close>; then it frees everything and calls \<open>exit(0)\<close>.
\<close>

definition signal_handler :: "globals \<Rightarrow> globals" where
  "signal_handler g = g\<lparr>server_running := False\<rparr>"

text \<open>
  The admission check of \<open>main\<close>, from taking \<open>connection_limit_mutex\<close> to
  the \<open>continue\<close> or to the unlock behind the increment: whether the client
  is admitted, the calls made on its socket, the new globals.  \<open>date\<close> is
  the text \<open>strftime\<close> would produce.
\<close>

definition admission :: "string \<Rightarrow> int \<Rightarrow> globals \<Rightarrow> bool \<times> event list \<times> globals" where
  "admission date sockfd g =
     (if active_connection_count g \<ge> MAX_CLIENTS then
        (False, sendErrorMessage date sockfd 503 @ [Close sockfd], g)
      else (True, [], g\<lparr>active_connection_count := active_connection_count g + 1\<rparr>))"

text \<open>The end of a worker's iteration: decrement under the mutex and signal.\<close>

definition release :: "globals \<Rightarrow> event list \<times> globals" where
  "release g =
     ([Signal_connection_available],
      g\<lparr>active_connection_count := active_connection_count g - 1\<rparr>)"

section \<open>handle\_request\_optimized\<close>

text \<open>
  What the system answers while one request is fetched upstream: whether the
  two \<open>malloc\<close>s succeed, the clock at the pool lookup, the descriptor of a
  new connection (-1 when it cannot be made), the return value of the
  \<open>send\<close> to the upstream server, what the upstream server delivers, the
  return value of the \<open>k\<close>-th \<open>send\<close> to the client, and the allocation
  result and clock readings for \<open>add_to_cache\<close> and the return to the pool.
\<close>

record exchange =
  send_buffer_ok :: bool
  pool_time :: int
  fresh_connect :: int
  upstream_sent :: int
  response_buffer_ok :: bool
  upstream_in :: "recv_event list"
  forwarded :: "nat \<Rightarrow> int"
  cache_malloc_ok :: bool
  cache_time :: int
  cache_time' :: int
  return_time :: int

text \<open>
  \<open>connectRemoteServer\<close>: a pooled connection when one is returned
  (\<open>remoteSocket > 0\<close>), else a new one.
\<close>

definition connectRemoteServer ::
  "exchange \<Rightarrow> string \<Rightarrow> int \<Rightarrow> connection_pool \<Rightarrow> int \<times> event list \<times> connection_pool" where
  "connectRemoteServer x host_addr port_num p =
     (case get_pooled_connection (pool_time x) host_addr port_num p of
        (remoteSocket, ev, p') \<Rightarrow>
          if remoteSocket > 0 then (remoteSocket, ev, p')
          else (fresh_connect x, ev, p'))"

text \<open>
  The variables of the receive loop.  \<open>response_buffer\<close> is the bytes copied
  so far, always \<open>total_received\<close> many, so \<open>response_buffer + total_received\<close>
  is its end.  \<open>allocated\<close> is the size of the block and \<open>overrun\<close> says
  that some \<open>memcpy\<close> went past it; the run is followed on as if the block
  had been large enough.
\<close>

record tee_state =
  total_received :: int
  buffer_size :: int
  allocated :: int
  response_buffer :: string
  overrun :: bool

definition tee_init :: tee_state where
  "tee_init = \<lparr>total_received = 0, buffer_size = MAX_ELEMENT_SIZE,
     allocated = MAX_ELEMENT_SIZE, response_buffer = [], overrun = False\<rparr>"

text \<open>
  The body of the loop behind the \<open>send\<close> to the client: the chunk is
  copied, or the buffer is to grow, or nothing happens.  (\<open>realloc\<close> is
  taken to succeed.)
\<close>

definition capture :: "string \<Rightarrow> tee_state \<Rightarrow> tee_state" where
  "capture chunk st =
     (let bytes_received = int (length chunk) in
      if total_received st + bytes_received < buffer_size st then
        st\<lparr>response_buffer := response_buffer st @ chunk,
           total_received := total_received st + bytes_received,
           overrun := (overrun st \<or> allocated st < total_received st + bytes_received)\<rparr>
      else if total_received st < MAX_ELEMENT_SIZE then
        (let new_size = total_received st + bytes_received + int MAX_BYTES in
         if new_size \<le> MAX_ELEMENT_SIZE then
           st\<lparr>buffer_size := new_size, allocated := new_size,
              response_buffer := response_buffer st @ chunk,
              total_received := total_received st + bytes_received\<rparr>
         else st\<lparr>buffer_size := new_size\<rparr>)
      else st)"

text \<open>
  The loop \<open>while ((bytes_received = recv(...)) > 0)\<close>; \<open>k\<close> counts its
  rounds.  The result is the final variables and the sends to the client.
\<close>

function tee_loop ::
  "int \<Rightarrow> (nat \<Rightarrow> int) \<Rightarrow> nat \<Rightarrow> recv_event list \<Rightarrow> tee_state \<Rightarrow> tee_state \<times> event list" where
  "tee_loop client_socket fwd k inp st =
     (case recv (MAX_BYTES - 1) inp of
        (bytes_received, chunk, inp') \<Rightarrow>
          if bytes_received > 0 then
            (if fwd k < 0 then (st, [Send client_socket chunk])
             else
               (case tee_loop client_socket fwd (Suc k) inp' (capture chunk st) of
                  (st', ev) \<Rightarrow> (st', Send client_socket chunk # ev)))
          else (st, []))"
  by pat_completeness auto
termination
proof -
  have dec: "pending inp' < pending inp"
    if "(r, bs, inp') = recv n inp" and "0 < r"
    for n inp r bs inp'
  proof (cases inp)
    case Nil
    then show ?thesis using that by simp
  next
    case (Cons e rest)
    then show ?thesis using that
      by (cases e) (auto split: if_splits)
  qed
  show ?thesis
    by (relation "measure (\<lambda>(client_socket, fwd, k, inp, st). pending inp)")
       (auto dest: dec)
qed

declare tee_loop.simps [simp del]

text \<open>
  \<open>handle_request_optimized(client_socket, request, temp_req)\<close>;
  \<open>host_addr\<close> is \<open>request->host\<close> and \<open>port_opt\<close> is \<open>request->port\<close>.
  The result is the return value, the calls made and the new globals.  The
  request text built in \<open>send_buffer\<close> goes to the upstream socket only and
  is not followed.
\<close>

definition handle_request_optimized ::
  "exchange \<Rightarrow> int \<Rightarrow> string \<Rightarrow> string option \<Rightarrow> string \<Rightarrow> globals \<Rightarrow> int \<times> event list \<times> globals" where
  "handle_request_optimized x client_socket host_addr port_opt temp_req g =
     (if \<not> send_buffer_ok x then (- 1, [], g)
      else
        (let server_port = (case port_opt of Some p \<Rightarrow> atoi p | None \<Rightarrow> 80) in
         case connectRemoteServer x host_addr server_port (conn_pool g) of
           (remoteSocket, ev1, p1) \<Rightarrow>
             (let g1 = g\<lparr>conn_pool := p1\<rparr> in
              if remoteSocket < 0 then (- 1, ev1, g1)
              else if upstream_sent x < 0 then (- 1, ev1 @ [Close remoteSocket], g1)
              else if \<not> response_buffer_ok x then (- 1, ev1 @ [Close remoteSocket], g1)
              else
                (case tee_loop client_socket (forwarded x) 0 (upstream_in x) tee_init of
                   (st, ev2) \<Rightarrow>
                     (let c2 =
                        (if total_received st > 0 then
                           (let c = snd (add_to_cache (cache_malloc_ok x) (cache_time x)
                                          (cache_time' x) (response_buffer st) temp_req (cache g1))
                            in c\<lparr>stats_bytes_served := stats_bytes_served c + total_received st,
                                 stats_total_requests := stats_total_requests c + 1\<rparr>)
                         else cache g1)
                      in case return_pooled_connection (return_time x) remoteSocket host_addr
                                server_port p1 of
                           (ev3, p3) \<Rightarrow>
                             (0, ev1 @ ev2 @ ev3, g1\<lparr>cache := c2, conn_pool := p3\<rparr>))))))"

section \<open>worker\_thread\<close>

text \<open>
  What the system answers while a worker serves one client: whether
  \<open>calloc\<close> and \<open>strdup\<close> succeed, what the client delivers, the clock at
  the cache lookup, the return value of the \<open>k\<close>-th \<open>send\<close> of a cache
  hit, the date text for an error response, and the answers for the upstream
  fetch.
\<close>

record arrival =
  buffer_ok :: bool
  client_in :: "recv_event list"
  temp_req_ok :: bool
  lookup_time :: int
  hit_sent :: "nat \<Rightarrow> int"
  date_text :: string
  fetch :: exchange

text \<open>
  The loop \<open>while (bytes_received > 0 && !strstr(buffer, "\r\n\r\n"))\<close>:
  every round receives behind the string in \<open>buffer\<close>, with room for what
  is left of \<open>MAX_BYTES - 1\<close>.
\<close>

function read_more :: "int \<Rightarrow> string \<Rightarrow> recv_event list \<Rightarrow> int \<times> string" where
  "read_more bytes_received buffer inp =
     (if bytes_received > 0 \<and> strstr (c_str buffer) [CR, LF, CR, LF] = None then
        (case recv (MAX_BYTES - strlen buffer - 1) inp of
           (additional, bs, inp') \<Rightarrow>
             if additional \<le> 0 then (bytes_received, buffer)
             else read_more (bytes_received + additional) (store buffer (strlen buffer) bs) inp')
      else (bytes_received, buffer))"
  by pat_completeness auto
termination
proof -
  have dec: "pending inp' < pending inp"
    if "(r, bs, inp') = recv n inp" and "0 < r"
    for n inp r bs inp'
  proof (cases inp)
    case Nil
    then show ?thesis using that by simp
  next
    case (Cons e rest)
    then show ?thesis using that
      by (cases e) (auto split: if_splits)
  qed
  show ?thesis
    by (relation "measure (\<lambda>(bytes_received, buffer, inp). pending inp)")
       (auto dest: dec)
qed

declare read_more.simps [simp del]

definition read_request :: "recv_event list \<Rightarrow> int \<times> string" where
  "read_request inp =
     (case recv (MAX_BYTES - 1) inp of
        (bytes_received, bs, inp') \<Rightarrow> read_more bytes_received bs inp')"

text \<open>
  The loop that serves a cache hit: \<open>sent\<close> bytes are out, \<open>k\<close> counts the
  rounds.
\<close>

function send_cached :: "int \<Rightarrow> (nat \<Rightarrow> int) \<Rightarrow> nat \<Rightarrow> cache_element \<Rightarrow> nat \<Rightarrow> event list" where
  "send_cached client_socket res k cached sent =
     (if int sent < len cached then
        (let chunk_size = (if len cached - int sent > int MAX_BYTES then MAX_BYTES
                           else nat (len cached - int sent));
             bytes_sent = res k
         in Send client_socket (take chunk_size (drop sent (data cached)))
            # (if bytes_sent \<le> 0 then []
               else send_cached client_socket res (Suc k) cached (sent + nat bytes_sent)))
      else [])"
  by pat_completeness auto
termination
  by (relation "measure (\<lambda>(client_socket, res, k, cached, sent). nat (len cached) - sent)") auto

declare send_cached.simps [simp del]

text \<open>
  The block \<open>if (temp_req) { ... }\<close>: cache lookup with the request text as
  key, then either the cached bytes or parse, check and fetch.
\<close>

definition serve :: "arrival \<Rightarrow> int \<Rightarrow> string \<Rightarrow> globals \<Rightarrow> event list \<times> globals" where
  "serve a client_socket buffer g =
     (let temp_req = c_str buffer in
      case find_in_cache (lookup_time a) temp_req (cache g) of
        (Some cached, c1) \<Rightarrow>
          (send_cached client_socket (hit_sent a) 0 cached 0, g\<lparr>cache := c1\<rparr>)
      | (None, c1) \<Rightarrow>
          (let g1 = g\<lparr>cache := c1\<rparr> in
           case ParsedRequest_parse (c_str buffer) of
             Some request \<Rightarrow>
               (case (host request, path request) of
                  (Some host_addr, Some p) \<Rightarrow>
                    if method' request = Some ''GET'' then
                      (case handle_request_optimized (fetch a) client_socket host_addr
                              (port request) temp_req g1 of
                         (r, ev, g2) \<Rightarrow>
                           (if r < 0 then ev @ sendErrorMessage (date_text a) client_socket 500
                            else ev, g2))
                    else (sendErrorMessage (date_text a) client_socket 501, g1)
                | _ \<Rightarrow> (sendErrorMessage (date_text a) client_socket 501, g1))
           | None \<Rightarrow> (sendErrorMessage (date_text a) client_socket 400, g1)))"

text \<open>
  One round of the loop of \<open>worker_thread\<close> for the item it has taken from
  the queue, up to the point where it goes for the next item.
\<close>

definition worker_item :: "arrival \<Rightarrow> int \<Rightarrow> globals \<Rightarrow> event list \<times> globals" where
  "worker_item a client_socket g =
     (if \<not> buffer_ok a then
        (case release g of (ev, g') \<Rightarrow> (Close client_socket # ev, g'))
      else
        (case read_request (client_in a) of
           (bytes_received, buffer) \<Rightarrow>
             (case (if bytes_received > 0 \<and> temp_req_ok a
                    then serve a client_socket buffer g else ([], g)) of
                (ev1, g1) \<Rightarrow>
                  (case release g1 of
                     (ev2, g2) \<Rightarrow>
                       (ev1 @ [Shutdown client_socket, Close client_socket] @ ev2, g2)))))"

text \<open>
  The same round without its last critical section (lock, decrement,
  signal, unlock): what the worker does before it touches the counter.
\<close>

definition worker_body :: "arrival \<Rightarrow> int \<Rightarrow> globals \<Rightarrow> event list \<times> globals" where
  "worker_body a client_socket g =
     (if \<not> buffer_ok a then ([Close client_socket], g)
      else
        (case read_request (client_in a) of
           (bytes_received, buffer) \<Rightarrow>
             (case (if bytes_received > 0 \<and> temp_req_ok a
                    then serve a client_socket buffer g else ([], g)) of
                (ev1, g1) \<Rightarrow> (ev1 @ [Shutdown client_socket, Close client_socket], g1))))"

section \<open>The threads together\<close>

text \<open>
  The acceptor thread and the workers, interleaved at the grain of the
  critical sections that guard the counter and the queue.  The acceptor either
  is about to accept or holds an admitted client that it has not queued yet
  (\<open>admitted\<close>).  A worker waits in \<open>dequeue_request\<close>, or has taken an item,
  or has served it and is about to enter the critical section that decrements
  the counter.
\<close>

datatype worker_pc = Waiting | Taken work_item | Served work_item

record system =
  shared :: globals
  admitted :: "(int \<times> nat) option"
  workers :: "worker_pc list"

definition init_system :: system where
  "init_system = \<lparr>shared = init_globals, admitted = None,
     workers = replicate THREAD_POOL_SIZE Waiting\<rparr>"

inductive step :: "system \<Rightarrow> system \<Rightarrow> bool" where
  accept_client:
    "admitted s = None \<Longrightarrow> admission date sockfd (shared s) = (ok, ev, g') \<Longrightarrow>
     step s (s\<lparr>shared := g', admitted := (if ok then Some (sockfd, addr) else None)\<rparr>)"
| enqueue:
    "admitted s = Some (sockfd, addr) \<Longrightarrow>
     enqueue_request malloc_ok sockfd addr (request_queue (shared s)) = Returns (ev, q') \<Longrightarrow>
     step s (s\<lparr>shared := (shared s)\<lparr>request_queue := q'\<rparr>, admitted := None\<rparr>)"
| dequeue:
    "i < length (workers s) \<Longrightarrow> workers s ! i = Waiting \<Longrightarrow>
     dequeue_request (server_running (shared s)) (request_queue (shared s)) =
       Returns (Some item, q') \<Longrightarrow>
     step s (s\<lparr>shared := (shared s)\<lparr>request_queue := q'\<rparr>,
               workers := (workers s)[i := Taken item]\<rparr>)"
| work:
    "i < length (workers s) \<Longrightarrow> workers s ! i = Taken item \<Longrightarrow>
     worker_body a (item_socket item) (shared s) = (ev, g') \<Longrightarrow>
     step s (s\<lparr>shared := g', workers := (workers s)[i := Served item]\<rparr>)"
| finish:
    "i < length (workers s) \<Longrightarrow> workers s ! i = Served item \<Longrightarrow>
     release (shared s) = (ev, g') \<Longrightarrow>
     step s (s\<lparr>shared := g', workers := (workers s)[i := Waiting]\<rparr>)"
| shutdown:
    "step s (s\<lparr>shared := signal_handler (shared s)\<rparr>)"

definition reachable :: "system \<Rightarrow> bool" where
  "reachable s = step\<^sup>*\<^sup>* init_system s"

text \<open>The clients the threads hold: queued, admitted or with a worker.\<close>

fun busy :: "worker_pc list \<Rightarrow> int" where
  "busy [] = 0"
| "busy (Waiting # ws) = busy ws"
| "busy (w # ws) = 1 + busy ws"

definition held :: "system \<Rightarrow> int" where
  "held s = int (length (request_queue (shared s)))
     + (case admitted s of None \<Rightarrow> 0 | Some c \<Rightarrow> 1) + busy (workers s)"

text \<open>How often a call occurs in a trace.\<close>

definition occurrences :: "event \<Rightarrow> event list \<Rightarrow> nat" where
  "occurrences e evs = length (filter (\<lambda>x. x = e) evs)"

definition counter_inv :: "system \<Rightarrow> bool" where
  "counter_inv s =
     (held s \<le> active_connection_count (shared s)
      \<and> active_connection_count (shared s) \<le> MAX_CLIENTS)"

section \<open>Concrete runs\<close>

text \<open>
  An upstream exchange in which everything works, the server delivers
  \<open>chunks\<close> and every \<open>send\<close> to the client takes the whole chunk; and a
  client that delivers \<open>segments\<close> and then closes.
\<close>

fun chunk_size_at :: "recv_event list \<Rightarrow> nat \<Rightarrow> int" where
  "chunk_size_at [] k = 0"
| "chunk_size_at (Error # rest) 0 = 0"
| "chunk_size_at (Bytes bs # rest) 0 = int (length bs)"
| "chunk_size_at (e # rest) (Suc k) = chunk_size_at rest k"

definition exchange_of :: "recv_event list \<Rightarrow> exchange" where
  "exchange_of chunks =
     \<lparr>send_buffer_ok = True, pool_time = 100, fresh_connect = 9, upstream_sent = 1,
      response_buffer_ok = True, upstream_in = chunks, forwarded = chunk_size_at chunks,
      cache_malloc_ok = True, cache_time = 100, cache_time' = 100, return_time = 100\<rparr>"

definition arrival_of :: "recv_event list \<Rightarrow> recv_event list \<Rightarrow> arrival" where
  "arrival_of segments chunks =
     \<lparr>buffer_ok = True, client_in = segments, temp_req_ok = True, lookup_time = 100,
      hit_sent = (\<lambda>k. 1), date_text = ''Mon, 02 Nov 2026 10:00:00 GMT'',
      fetch = exchange_of chunks\<rparr>"

text \<open>
  A response of \<open>MAX_ELEMENT_SIZE + 1\<close> bytes, delivered in 1280 chunks of
  8191 bytes and one of 1281 bytes, and the request of scenario S1.
\<close>

definition oversize_response :: "recv_event list" where
  "oversize_response =
     replicate 1280 (Bytes (replicate 8191 (CHR ''x''))) @ [Bytes (replicate 1281 (CHR ''x''))]"

definition example_request :: string where
  "example_request =
     ''GET http://example.com/ HTTP/1.1'' @ [CR, LF] @ ''Host: example.com'' @ [CR, LF, CR, LF]"

text \<open>The bytes of the \<open>send\<close> calls on \<open>fd\<close>, in order.\<close>

fun sent_to :: "int \<Rightarrow> event list \<Rightarrow> string" where
  "sent_to fd [] = []"
| "sent_to fd (Send fd' bs # evs) = (if fd' = fd then bs @ sent_to fd evs else sent_to fd evs)"
| "sent_to fd (e # evs) = sent_to fd evs"

fun delivered :: "recv_event list \<Rightarrow> string" where
  "delivered [] = []"
| "delivered (Bytes bs # rest) = bs @ delivered rest"
| "delivered (Error # rest) = []"

text \<open>
  The first request of the run: one admitted client sends the request of S1
  and the upstream server answers with the oversize response.
\<close>

definition first_fetch :: "event list \<times> globals" where
  "first_fetch =
     worker_item (arrival_of [Bytes example_request] oversize_response) 5
       (init_globals\<lparr>active_connection_count := 1\<rparr>)"

definition captured_part :: string where
  "captured_part = concat (replicate 1280 (replicate 8191 (CHR ''x'')))"

section \<open>Properties\<close>

lemma scan_prev_range:
  "scan_prev xs i lru t = lru \<or> (i \<le> scan_prev xs i lru t \<and> scan_prev xs i lru t < i + length xs)"
proof (induction xs arbitrary: i lru t)
  case Nil
  then show ?case by simp
next
  case (Cons a xs)
  show ?case
    using Cons.IH [of "Suc i" i "lru_time_track a"] Cons.IH [of "Suc i" lru t]
    by auto
qed

lemma scan_prev_less: "xs \<noteq> [] \<Longrightarrow> scan_prev xs 0 0 t < length xs"
  using scan_prev_range [of xs 0 0 t] by auto

lemma lru_position_less: "xs \<noteq> [] \<Longrightarrow> lru_position xs < length xs"
  by (cases xs) (auto simp: lru_position_def)

lemma total_bytes_unlink:
  "i < length xs \<Longrightarrow> total_bytes (unlink i xs) = total_bytes xs - element_bytes (xs ! i)"
proof -
  assume i: "i < length xs"
  then have "xs = take i xs @ (xs ! i) # drop (Suc i) xs"
    by (simp add: id_take_nth_drop)
  then have "total_bytes xs = total_bytes (take i xs) + element_bytes (xs ! i) + total_bytes (drop (Suc i) xs)"
    by (metis (no_types) total_bytes_def map_append sum_list.append list.simps(9) sum_list.Cons add.assoc)
  then show ?thesis by (simp add: unlink_def total_bytes_def)
qed

lemma remove_lru_exact:
  "cache_size_exact s \<Longrightarrow> cache_size_exact (remove_lru_element s)"
  by (simp add: cache_size_exact_def remove_lru_element_def Let_def total_bytes_unlink lru_position_less)

lemma make_space_step:
  "MAX_SIZE < cache_size s + es \<Longrightarrow> cache_list s \<noteq> [] \<Longrightarrow>
   make_space es s = make_space es (remove_lru_element s)"
  by (subst make_space.simps) simp

lemma make_space_stop:
  "\<not> (MAX_SIZE < cache_size s + es \<and> cache_list s \<noteq> []) \<Longrightarrow> make_space es s = s"
  by (subst make_space.simps) auto

lemma make_space_exact:
  "cache_size_exact s \<Longrightarrow> cache_size_exact (make_space es s)"
proof (induction es s rule: make_space.induct)
  case (1 es s)
  show ?case
  proof (cases "MAX_SIZE < cache_size s + es \<and> cache_list s \<noteq> []")
    case True
    then have "make_space es s = make_space es (remove_lru_element s)"
      by (simp add: make_space_step)
    moreover have "cache_size_exact (make_space es (remove_lru_element s))"
      using True "1.prems" by (intro "1.IH") (simp_all add: remove_lru_exact)
    ultimately show ?thesis by simp
  next
    case False
    then show ?thesis using "1.prems" by (simp add: make_space_stop)
  qed
qed


lemma add_to_cache_exact:
  "cache_size_exact s \<Longrightarrow> cache_size_exact (snd (add_to_cache ok now now' dat u s))"
  using make_space_exact [of s "int (length dat) + int (length u) + sizeof_cache_element"]
  by (auto simp: add_to_cache_def Let_def cache_size_exact_def total_bytes_def element_bytes_def)

lemma find_index_from_Some:
  "find_index_from u xs n = Some i \<Longrightarrow>
   n \<le> i \<and> i - n < length xs \<and> url (xs ! (i - n)) = u \<and> (\<forall>j < i - n. url (xs ! j) \<noteq> u)"
proof (induction xs arbitrary: n)
  case Nil
  then show ?case by simp
next
  case (Cons a xs)
  show ?case
  proof (cases "url a = u")
    case True
    then show ?thesis using Cons.prems by simp
  next
    case False
    then have "find_index_from u xs (Suc n) = Some i" using Cons.prems by simp
    from Cons.IH [OF this] have *: "Suc n \<le> i" "i - Suc n < length xs"
      "url (xs ! (i - Suc n)) = u" "\<forall>j < i - Suc n. url (xs ! j) \<noteq> u" by auto
    have e: "i - n = Suc (i - Suc n)" using * by simp
    have "\<forall>j < i - n. url ((a # xs) ! j) \<noteq> u"
    proof (intro allI impI)
      fix j assume "j < i - n"
      then show "url ((a # xs) ! j) \<noteq> u"
        using False * e by (cases j) auto
    qed
    then show ?thesis using * e by simp
  qed
qed

lemma find_index_from_None:
  "find_index_from u xs n = None \<longleftrightarrow> u \<notin> url ` set xs"
  by (induction xs arbitrary: n) auto

lemma find_index_from_find:
  "find_index_from u xs n = Some i \<Longrightarrow> List.find (\<lambda>e. url e = u) xs = Some (xs ! (i - n))"
proof (induction xs arbitrary: n)
  case Nil
  then show ?case by simp
next
  case (Cons a xs)
  show ?case
  proof (cases "url a = u")
    case True
    then show ?thesis using Cons.prems by simp
  next
    case False
    then have f: "find_index_from u xs (Suc n) = Some i" using Cons.prems by simp
    from find_index_from_Some [OF f] have "Suc n \<le> i" by simp
    then have e: "i - n = Suc (i - Suc n)" by simp
    show ?thesis using Cons.IH [OF f] False e by simp
  qed
qed

lemma unlink_remove1:
  "i < length xs \<Longrightarrow> \<forall>j < i. xs ! j \<noteq> xs ! i \<Longrightarrow> unlink i xs = remove1 (xs ! i) xs"
proof (induction xs arbitrary: i)
  case Nil
  then show ?case by simp
next
  case (Cons a xs)
  show ?case
  proof (cases i)
    case 0
    then show ?thesis by (simp add: unlink_def)
  next
    case (Suc k)
    have "a \<noteq> xs ! k" using Cons.prems(2) Suc by (metis nth_Cons_0 nth_Cons_Suc zero_less_Suc)
    moreover have "\<forall>j < k. xs ! j \<noteq> xs ! k"
      using Cons.prems(2) Suc by (metis Suc_less_eq nth_Cons_Suc)
    moreover have "k < length xs" using Cons.prems(1) Suc by simp
    ultimately show ?thesis using Cons.IH [of k] Suc by (simp add: unlink_def)
  qed
qed


lemma total_bytes_update:
  "i < length xs \<Longrightarrow>
   total_bytes (xs[i := (xs ! i)\<lparr>lru_time_track := t, access_count := c\<rparr>]) = total_bytes xs"
proof (induction xs arbitrary: i)
  case Nil
  then show ?case by simp
next
  case (Cons a xs)
  then show ?case by (cases i) (auto simp: total_bytes_def element_bytes_def)
qed

lemma chain_front:
  "i < length xs \<Longrightarrow>
   (if i \<noteq> 0 then e # unlink i xs else xs[i := e]) = e # unlink i xs"
  by (cases xs) (auto simp: unlink_def)

lemma find_in_cache_Some:
  fixes now :: int
  assumes f: "find_index_from k (cache_list s) 0 = Some i"
  shows "find_in_cache now k s =
     (Some ((cache_list s ! i)\<lparr>lru_time_track := now,
              access_count := access_count (cache_list s ! i) + 1\<rparr>),
      s\<lparr>cache_list := (cache_list s ! i)\<lparr>lru_time_track := now,
              access_count := access_count (cache_list s ! i) + 1\<rparr> # unlink i (cache_list s),
        stats_cache_hits := stats_cache_hits s + 1\<rparr>)"
proof -
  from find_index_from_Some [OF f]
  have i: "i < length (cache_list s)" and u: "url (cache_list s ! i) = k" by simp_all
  show ?thesis
    unfolding find_in_cache_def Let_def f option.case chain_front [OF i]
    using u by simp
qed



lemma find_in_cache_hit:
  fixes now :: int
  assumes f: "find_index_from k (cache_list s) 0 = Some i"
  shows "find_in_cache now k s =
     (Some ((cache_list s ! i)\<lparr>lru_time_track := now,
              access_count := access_count (cache_list s ! i) + 1\<rparr>),
      s\<lparr>cache_list := (cache_list s ! i)\<lparr>lru_time_track := now,
              access_count := access_count (cache_list s ! i) + 1\<rparr>
                # remove1 (cache_list s ! i) (cache_list s),
        stats_cache_hits := stats_cache_hits s + 1\<rparr>)"
proof -
  from find_index_from_Some [OF f]
  have i: "i < length (cache_list s)" and u: "url (cache_list s ! i) = k"
    and first: "\<forall>j < i. url (cache_list s ! j) \<noteq> k"
    by simp_all
  have "\<forall>j < i. cache_list s ! j \<noteq> cache_list s ! i"
    using first u by metis
  then have un: "unlink i (cache_list s) = remove1 (cache_list s ! i) (cache_list s)"
    using unlink_remove1 [OF i] by simp
  show ?thesis unfolding find_in_cache_Some [OF f] un ..
qed



lemma remove_lru_element_unlink:
  "cache_list s \<noteq> [] \<Longrightarrow>
   remove_lru_element s =
     s\<lparr>cache_list := unlink (lru_position (cache_list s)) (cache_list s),
       cache_size := cache_size s - element_bytes (cache_list s ! lru_position (cache_list s))\<rparr>"
  by (simp add: remove_lru_element_def Let_def)

lemma add_to_cache_stored:
  assumes "fst (add_to_cache malloc_ok now now' dat u s) = 1"
  shows "snd (add_to_cache malloc_ok now now' dat u s) =
     (make_space (int (length dat) + int (length u) + sizeof_cache_element) s)
       \<lparr>cache_list := \<lparr>data = dat, len = int (length dat), url = u, lru_time_track = now,
                        creation_time = now', access_count = 1\<rparr>
            # cache_list (make_space (int (length dat) + int (length u) + sizeof_cache_element) s),
        cache_size := cache_size (make_space (int (length dat) + int (length u) + sizeof_cache_element) s)
            + (int (length dat) + int (length u) + sizeof_cache_element)\<rparr>"
  using assms by (simp add: add_to_cache_def Let_def split: if_splits)

text \<open>
  Claim C9.  In a state where \<open>cache_size\<close> equals the sum over the elements
  reachable from \<open>cache_head\<close> of \<open>len + strlen(url) + sizeof(cache_element)\<close>,
  it still does after \<open>add_to_cache\<close> and after \<open>remove_lru_element\<close>; a
  successful insertion links one element and adds exactly its contribution,
  an eviction unlinks one element and subtracts exactly its contribution.
\<close>

theorem cache_size_tracks_elements:
  assumes "cache_size_exact s"
  shows "cache_size_exact (snd (add_to_cache malloc_ok now now' dat u s))
     \<and> cache_size_exact (remove_lru_element s)
     \<and> (fst (add_to_cache malloc_ok now now' dat u s) = 1 \<longrightarrow>
          (\<exists>element.
             cache_list (snd (add_to_cache malloc_ok now now' dat u s)) =
               element # cache_list (make_space (int (length dat) + int (length u) + sizeof_cache_element) s)
           \<and> data element = dat \<and> url element = u
           \<and> cache_size (snd (add_to_cache malloc_ok now now' dat u s)) =
               cache_size (make_space (int (length dat) + int (length u) + sizeof_cache_element) s)
                 + element_bytes element))
     \<and> (cache_list s \<noteq> [] \<longrightarrow>
          (\<exists>i < length (cache_list s).
             cache_list (remove_lru_element s) = unlink i (cache_list s)
           \<and> cache_size (remove_lru_element s) = cache_size s - element_bytes (cache_list s ! i)))"
proof (intro conjI impI)
  show "cache_size_exact (snd (add_to_cache malloc_ok now now' dat u s))"
    using assms by (rule add_to_cache_exact)
  show "cache_size_exact (remove_lru_element s)"
    using assms by (rule remove_lru_exact)
next
  assume "fst (add_to_cache malloc_ok now now' dat u s) = 1"
  from add_to_cache_stored [OF this]
  show "\<exists>element.
             cache_list (snd (add_to_cache malloc_ok now now' dat u s)) =
               element # cache_list (make_space (int (length dat) + int (length u) + sizeof_cache_element) s)
           \<and> data element = dat \<and> url element = u
           \<and> cache_size (snd (add_to_cache malloc_ok now now' dat u s)) =
               cache_size (make_space (int (length dat) + int (length u) + sizeof_cache_element) s)
                 + element_bytes element"
    by (simp add: element_bytes_def)
next
  assume ne: "cache_list s \<noteq> []"
  then have "lru_position (cache_list s) < length (cache_list s)"
    by (rule lru_position_less)
  then show "\<exists>i < length (cache_list s).
             cache_list (remove_lru_element s) = unlink i (cache_list s)
           \<and> cache_size (remove_lru_element s) = cache_size s - element_bytes (cache_list s ! i)"
    using remove_lru_element_unlink [OF ne] by auto
qed

theorem cache_size_tracks_elements_witness:
  "cache_size_exact (run_ops [Insert True 5 5 ''body'' ''key'']) \<and>
   cache_size (snd (add_to_cache True 7 7 ''abc'' ''k'' (run_ops [Insert True 5 5 ''body'' ''key'']))) = 139 \<and>
   cache_size_exact (snd (add_to_cache True 7 7 ''abc'' ''k'' (run_ops [Insert True 5 5 ''body'' ''key''])))"
proof -
  have s: "run_ops [Insert True 5 5 ''body'' ''key''] =
     \<lparr>cache_list = [\<lparr>data = ''body'', len = 4, url = ''key'', lru_time_track = 5,
                      creation_time = 5, access_count = 1\<rparr>],
      cache_size = 71, stats_total_requests = 0, stats_cache_hits = 0,
      stats_cache_misses = 0, stats_bytes_served = 0\<rparr>"
    by (simp add: run_ops_def init_cache_def add_to_cache_def Let_def make_space.simps
        sizeof_cache_element_def MAX_ELEMENT_SIZE_def MAX_SIZE_def)
  have h: "cache_size_exact (run_ops [Insert True 5 5 ''body'' ''key''])"
    by (simp add: s cache_size_exact_def total_bytes_def element_bytes_def sizeof_cache_element_def)
  have c: "cache_size (snd (add_to_cache True 7 7 ''abc'' ''k'' (run_ops [Insert True 5 5 ''body'' ''key'']))) = 139"
    by (simp add: s add_to_cache_def Let_def make_space.simps
        sizeof_cache_element_def MAX_ELEMENT_SIZE_def MAX_SIZE_def)
  show ?thesis
    using h c cache_size_tracks_elements [OF h, of True 7 7 "''abc''" "''k''"] by simp
qed













lemma count_key_positive: "k \<in> url ` set xs \<Longrightarrow> 0 < count_key k xs"
  by (induction xs) auto




text \<open>
  Claim C7.  When some element has the key \<open>k\<close>, \<open>find_in_cache\<close> returns
  the first such element \<open>c\<close> from the head with its time stamp set to the
  clock and its access count incremented, moves it to the head of the list
  (the other elements keep their order) and counts a hit; a second lookup
  straight after returns it again, again at the head.
\<close>

theorem lookup_hit_promotes:
  assumes "k \<in> url ` set (cache_list s)"
  shows "\<exists>c. List.find (\<lambda>e. url e = k) (cache_list s) = Some c
     \<and> fst (find_in_cache now k s) =
         Some (c\<lparr>lru_time_track := now, access_count := access_count c + 1\<rparr>)
     \<and> cache_list (snd (find_in_cache now k s)) =
         c\<lparr>lru_time_track := now, access_count := access_count c + 1\<rparr>
           # remove1 c (cache_list s)
     \<and> url (hd (cache_list (snd (find_in_cache now k s)))) = k
     \<and> stats_cache_hits (snd (find_in_cache now k s)) = stats_cache_hits s + 1
     \<and> fst (find_in_cache now2 k (snd (find_in_cache now k s))) =
         Some (c\<lparr>lru_time_track := now2, access_count := access_count c + 2\<rparr>)
     \<and> cache_list (snd (find_in_cache now2 k (snd (find_in_cache now k s)))) =
         c\<lparr>lru_time_track := now2, access_count := access_count c + 2\<rparr>
           # remove1 c (cache_list s)"
proof -
  from assms obtain i where f: "find_index_from k (cache_list s) 0 = Some i"
    using find_index_from_None [of k "cache_list s" 0] by (cases "find_index_from k (cache_list s) 0") auto
  let ?c = "cache_list s ! i"
  let ?e = "?c\<lparr>lru_time_track := now, access_count := access_count ?c + 1\<rparr>"
  let ?s1 = "snd (find_in_cache now k s)"
  from find_index_from_Some [OF f] have u: "url ?c = k" by simp
  have fc: "List.find (\<lambda>e. url e = k) (cache_list s) = Some ?c"
    using find_index_from_find [OF f] by simp
  note h = find_in_cache_hit [OF f, of now]
  have l1: "cache_list ?s1 = ?e # remove1 ?c (cache_list s)" by (simp add: h)
  have f1: "find_index_from k (cache_list ?s1) 0 = Some 0" by (simp add: l1 u)
  note h2 = find_in_cache_Some [OF f1, of now2]
  have r2: "fst (find_in_cache now2 k ?s1) =
      Some (?c\<lparr>lru_time_track := now2, access_count := access_count ?c + 2\<rparr>)"
    by (simp add: h2 l1)
  have l2: "cache_list (snd (find_in_cache now2 k ?s1)) =
      ?c\<lparr>lru_time_track := now2, access_count := access_count ?c + 2\<rparr> # remove1 ?c (cache_list s)"
    by (simp add: h2 l1 unlink_def)
  have "fst (find_in_cache now k s) = Some ?e" by (simp add: h)
  moreover have "url (hd (cache_list ?s1)) = k" by (simp add: l1 u)
  moreover have "stats_cache_hits ?s1 = stats_cache_hits s + 1" by (simp add: h)
  ultimately show ?thesis using fc l1 r2 l2 by blast
qed

theorem lookup_hit_promotes_witness:
  "''a'' \<in> url ` set (cache_list (run_ops [Insert True 1 1 ''x'' ''a'', Insert True 2 2 ''y'' ''b'']))
   \<and> fst (find_in_cache 9 ''a'' (run_ops [Insert True 1 1 ''x'' ''a'', Insert True 2 2 ''y'' ''b''])) =
       Some \<lparr>data = ''x'', len = 1, url = ''a'', lru_time_track = 9, creation_time = 1,
             access_count = 2\<rparr>
   \<and> cache_list (snd (find_in_cache 9 ''a''
         (run_ops [Insert True 1 1 ''x'' ''a'', Insert True 2 2 ''y'' ''b'']))) =
       [\<lparr>data = ''x'', len = 1, url = ''a'', lru_time_track = 9, creation_time = 1,
          access_count = 2\<rparr>,
        \<lparr>data = ''y'', len = 1, url = ''b'', lru_time_track = 2, creation_time = 2,
          access_count = 1\<rparr>]"
proof -
  let ?s = "run_ops [Insert True 1 1 ''x'' ''a'', Insert True 2 2 ''y'' ''b'']"
  have s: "cache_list ?s =
     [\<lparr>data = ''y'', len = 1, url = ''b'', lru_time_track = 2, creation_time = 2,
        access_count = 1\<rparr>,
      \<lparr>data = ''x'', len = 1, url = ''a'', lru_time_track = 1, creation_time = 1,
        access_count = 1\<rparr>]"
    by (simp add: run_ops_def init_cache_def add_to_cache_def Let_def make_space.simps
        sizeof_cache_element_def MAX_ELEMENT_SIZE_def MAX_SIZE_def)
  have h: "''a'' \<in> url ` set (cache_list ?s)" by (simp add: s)
  from lookup_hit_promotes [OF h, of 9 9] obtain c where
    c: "List.find (\<lambda>e. url e = ''a'') (cache_list ?s) = Some c"
    and r: "fst (find_in_cache 9 ''a'' ?s) =
         Some (c\<lparr>lru_time_track := 9, access_count := access_count c + 1\<rparr>)"
    and l: "cache_list (snd (find_in_cache 9 ''a'' ?s)) =
         c\<lparr>lru_time_track := 9, access_count := access_count c + 1\<rparr> # remove1 c (cache_list ?s)"
    by blast
  from c have "c = \<lparr>data = ''x'', len = 1, url = ''a'', lru_time_track = 1, creation_time = 1,
        access_count = 1\<rparr>"
    by (simp add: s)
  then show ?thesis using h r l by (simp add: s)
qed

subsection \<open>Admission and the error responses\<close>

lemma error_page_503: "error_page 503 = None"
  by (simp add: error_page_def)

lemma sendErrorMessage_500: "sendErrorMessage date sockfd 500 \<noteq> []"
  by (simp add: sendErrorMessage_def error_response_def error_page_def)

text \<open>
  Claim C2 fails on the code.  The \<open>switch\<close> of \<open>sendErrorMessage\<close> has no
  case 503, so for a client over the limit nothing is sent: on the refusal
  path of \<open>main\<close> the only call on the socket is \<open>close\<close>.  (The counter is
  indeed left as it was, and for a code the \<open>switch\<close> knows, such as 500,
  a response is sent.)
\<close>

theorem refusal_sends_no_response:
  "sendErrorMessage date sockfd 503 = []
   \<and> admission date sockfd (g\<lparr>active_connection_count := MAX_CLIENTS\<rparr>) =
       (False, [Close sockfd], g\<lparr>active_connection_count := MAX_CLIENTS\<rparr>)
   \<and> sendErrorMessage date sockfd 500 \<noteq> []"
  using sendErrorMessage_500 [of date sockfd]
  by (simp add: admission_def sendErrorMessage_def error_response_def error_page_503)

subsection \<open>The work queue at shutdown\<close>

text \<open>
  Claim C8 as stated fails: with one client still queued when the flag is
  cleared, \<open>dequeue_request\<close> returns the sentinel and the client stays in
  the queue.
\<close>

theorem dequeue_after_shutdown_counterexample:
  "dequeue_request
     (server_running (signal_handler (init_globals\<lparr>request_queue := [\<lparr>item_socket = 7, item_addr = 0\<rparr>]\<rparr>)))
     (request_queue (signal_handler (init_globals\<lparr>request_queue := [\<lparr>item_socket = 7, item_addr = 0\<rparr>]\<rparr>)))
   = Returns (None, [\<lparr>item_socket = 7, item_addr = 0\<rparr>])"
  by (simp add: dequeue_request_def signal_handler_def init_globals_def)

text \<open>
  Claim C8, as amended.  Once \<open>signal_handler\<close> has cleared the flag, every
  call of \<open>dequeue_request\<close> returns the sentinel, whether the queue is empty
  or not, and leaves the queue as it is: the queued items are not handed to
  any worker.  The sentinel is returned in no other state.
\<close>

theorem dequeue_after_shutdown:
  "dequeue_request (server_running (signal_handler g)) (request_queue (signal_handler g)) =
     Returns (None, request_queue g)
   \<and> (dequeue_request running q = Returns (None, q') \<longleftrightarrow> \<not> running \<and> q' = q)"
  by (auto simp: dequeue_request_def signal_handler_def split: list.splits)

theorem dequeue_after_shutdown_witness:
  "dequeue_request
     (server_running (signal_handler (init_globals\<lparr>request_queue :=
        [\<lparr>item_socket = 7, item_addr = 0\<rparr>, \<lparr>item_socket = 8, item_addr = 0\<rparr>]\<rparr>)))
     (request_queue (signal_handler (init_globals\<lparr>request_queue :=
        [\<lparr>item_socket = 7, item_addr = 0\<rparr>, \<lparr>item_socket = 8, item_addr = 0\<rparr>]\<rparr>)))
   = Returns (None, [\<lparr>item_socket = 7, item_addr = 0\<rparr>, \<lparr>item_socket = 8, item_addr = 0\<rparr>])"
proof -
  let ?g = "init_globals\<lparr>request_queue :=
        [\<lparr>item_socket = 7, item_addr = 0\<rparr>, \<lparr>item_socket = 8, item_addr = 0\<rparr>]\<rparr>"
  from dequeue_after_shutdown [of ?g True "[]" "[]"]
  have "dequeue_request (server_running (signal_handler ?g)) (request_queue (signal_handler ?g)) =
      Returns (None, request_queue ?g)"
    by blast
  then show ?thesis by simp
qed

subsection \<open>The calls of one worker round\<close>

lemma occurrences_append [simp]:
  "occurrences e (xs @ ys) = occurrences e xs + occurrences e ys"
  by (simp add: occurrences_def)

lemma occurrences_Cons [simp]:
  "occurrences e (x # xs) = (if x = e then Suc (occurrences e xs) else occurrences e xs)"
  by (simp add: occurrences_def)

lemma occurrences_Nil [simp]: "occurrences e [] = 0"
  by (simp add: occurrences_def)









lemma handle_request_optimized_frame:
  "active_connection_count (snd (snd (handle_request_optimized x c h po key g))) =
     active_connection_count g
   \<and> request_queue (snd (snd (handle_request_optimized x c h po key g))) = request_queue g
   \<and> server_running (snd (snd (handle_request_optimized x c h po key g))) = server_running g"
  by (simp add: handle_request_optimized_def Let_def split: prod.splits)


lemma handle_request_optimized_frame':
  "handle_request_optimized x c h po key g = (r, ev, g') \<Longrightarrow>
   active_connection_count g' = active_connection_count g
   \<and> request_queue g' = request_queue g \<and> server_running g' = server_running g"
  using handle_request_optimized_frame [of x c h po key g] by simp

lemma serve_frame':
  assumes "serve a c buffer g = (ev, g')"
  shows "active_connection_count g' = active_connection_count g
   \<and> request_queue g' = request_queue g \<and> server_running g' = server_running g"
proof -
  obtain hit c1 where f: "find_in_cache (lookup_time a) (c_str buffer) (cache g) = (hit, c1)"
    by (cases "find_in_cache (lookup_time a) (c_str buffer) (cache g)") auto
  show ?thesis
    using assms f
    by (auto simp: serve_def Let_def split: option.splits prod.splits if_splits
        dest!: handle_request_optimized_frame')
qed

lemma serve_frame:
  "active_connection_count (snd (serve a c buffer g)) = active_connection_count g
   \<and> request_queue (snd (serve a c buffer g)) = request_queue g
   \<and> server_running (snd (serve a c buffer g)) = server_running g"
  using serve_frame' [of a c buffer g] by (cases "serve a c buffer g") simp



lemma worker_body_frame:
  "active_connection_count (snd (worker_body a c g)) = active_connection_count g
   \<and> request_queue (snd (worker_body a c g)) = request_queue g
   \<and> server_running (snd (worker_body a c g)) = server_running g"
  by (auto simp: worker_body_def split: prod.splits dest!: serve_frame')



subsection \<open>The admission counter under interleaving\<close>

lemma busy_nonneg: "0 \<le> busy ws"
  by (induction ws rule: busy.induct) auto

lemma busy_update:
  "i < length ws \<Longrightarrow>
   busy (ws[i := w]) =
     busy ws - (if ws ! i = Waiting then 0 else 1) + (if w = Waiting then 0 else 1)"
proof (induction ws arbitrary: i)
  case Nil
  then show ?case by simp
next
  case (Cons x xs)
  show ?case
  proof (cases i)
    case 0
    then show ?thesis by (cases x; cases w) auto
  next
    case (Suc k)
    then have "k < length xs" using Cons.prems by simp
    from Cons.IH [OF this] Suc show ?thesis by (cases x) auto
  qed
qed

lemma busy_replicate: "busy (replicate n Waiting) = 0"
  by (induction n) auto

lemma held_nonneg: "0 \<le> held s"
  using busy_nonneg [of "workers s"] by (simp add: held_def split: option.splits)

lemma counter_inv_init: "counter_inv init_system"
  by (simp add: counter_inv_def held_def init_system_def init_globals_def MAX_CLIENTS_def
      busy_replicate)

lemma step_counter_inv:
  assumes "step s s'" and "counter_inv s"
  shows "counter_inv s'"
  using assms
proof (induction rule: step.induct)
  case (accept_client s date sockfd ok ev g' addr)
  then show ?case
    by (auto simp: counter_inv_def held_def admission_def split: if_splits)
next
  case (enqueue s sockfd addr malloc_ok ev q')
  then show ?case
    by (auto simp: counter_inv_def held_def enqueue_request_def split: if_splits)
next
  case (dequeue i s item q')
  from dequeue.hyps(3) have "length (request_queue (shared s)) = Suc (length q')"
    by (auto simp: dequeue_request_def split: if_splits list.splits)
  then show ?case using dequeue
    by (simp add: counter_inv_def held_def busy_update)
next
  case (work i s item a ev g')
  from work.hyps(3) worker_body_frame [of a "item_socket item" "shared s"]
  have "active_connection_count g' = active_connection_count (shared s)"
    "request_queue g' = request_queue (shared s)" by simp_all
  then show ?case using work
    by (simp add: counter_inv_def held_def busy_update)
next
  case (finish i s item ev g')
  then show ?case
    by (auto simp: counter_inv_def held_def busy_update release_def)
next
  case (shutdown s)
  then show ?case by (simp add: counter_inv_def held_def signal_handler_def)
qed

lemma reachable_counter_inv: "reachable s \<Longrightarrow> counter_inv s"
  unfolding reachable_def
  by (induction rule: rtranclp_induct) (auto intro: counter_inv_init step_counter_inv)

text \<open>
  Claim C4.  In every state the acceptor and the workers can reach by any
  interleaving of their critical sections (admission check with increment,
  enqueue, dequeue, the work on a client, decrement with signal, shutdown),
  \<open>active_connection_count\<close> is at least the number of clients held (so at
  least 0) and at most \<open>MAX_CLIENTS\<close>.
\<close>

theorem admission_counter_bounds:
  assumes "reachable s"
  shows "0 \<le> active_connection_count (shared s)
     \<and> active_connection_count (shared s) \<le> MAX_CLIENTS
     \<and> held s \<le> active_connection_count (shared s)"
  using reachable_counter_inv [OF assms] held_nonneg [of s]
  by (simp add: counter_inv_def)

subsection \<open>Receive failures in the worker\<close>

lemma recv_0: "fst (recv 0 inp) \<le> 0"
proof (cases inp)
  case Nil
  then show ?thesis by simp
next
  case (Cons e rest)
  then show ?thesis by (cases e) auto
qed

lemma read_more_closed: "read_more n buf [] = (n, buf)"
  by (subst read_more.simps) simp

lemma read_more_error: "read_more n buf (Error # rest) = (n, buf)"
  by (subst read_more.simps) simp

lemma read_more_full:
  assumes "MAX_BYTES - 1 \<le> strlen buf"
  shows "read_more n buf inp = (n, buf)"
proof -
  have "MAX_BYTES - strlen buf - 1 = 0" using assms by simp
  then have "fst (recv (MAX_BYTES - strlen buf - 1) inp) \<le> 0" using recv_0 by simp
  then show ?thesis
    by (subst read_more.simps) (auto split: prod.splits)
qed

lemma read_request_no_data:
  "inp = [] \<or> (\<exists>rest. inp = Error # rest) \<Longrightarrow> fst (read_request inp) \<le> 0"
  by (auto simp: read_request_def read_more.simps [of 0] read_more.simps [of "- 1"])

lemma worker_item_no_data:
  assumes "buffer_ok a" "fst (read_request (client_in a)) \<le> 0"
  shows "fst (worker_item a c g) = [Shutdown c, Close c, Signal_connection_available]"
  using assms by (auto simp: worker_item_def release_def split: prod.splits)

lemma worker_item_served:
  assumes "buffer_ok a" "read_request (client_in a) = (n, buf)" "0 < n" "temp_req_ok a"
  shows "worker_item a c g =
     (fst (serve a c buf g) @ [Shutdown c, Close c, Signal_connection_available],
      (snd (serve a c buf g))\<lparr>active_connection_count :=
         active_connection_count (snd (serve a c buf g)) - 1\<rparr>)"
  using assms by (cases "serve a c buf g") (simp add: worker_item_def release_def)

lemma worker_item_rejected:
  assumes "buffer_ok a" "read_request (client_in a) = (n, buf)" "0 < n" "temp_req_ok a"
    and "fst (find_in_cache (lookup_time a) (c_str buf) (cache g)) = None"
    and "ParsedRequest_parse (c_str buf) = None"
  shows "fst (worker_item a c g) =
     sendErrorMessage (date_text a) c 400 @ [Shutdown c, Close c, Signal_connection_available]"
proof -
  obtain c1 where "find_in_cache (lookup_time a) (c_str buf) (cache g) = (None, c1)"
    using assms(5) by (cases "find_in_cache (lookup_time a) (c_str buf) (cache g)") auto
  then have "fst (serve a c buf g) = sendErrorMessage (date_text a) c 400"
    using assms(6) by (simp add: serve_def Let_def)
  then show ?thesis
    by (simp add: worker_item_served [OF assms(1-4)])
qed

text \<open>
  Claim C6 as stated fails: when the peer closes before it has sent
  anything, the worker sends no response at all; it shuts the socket down,
  closes it and releases the connection slot.
\<close>

theorem closed_before_request_counterexample:
  "fst (worker_item (arrival_of [] []) 5 init_globals) =
     [Shutdown 5, Close 5, Signal_connection_available]"
  by (simp add: worker_item_def arrival_of_def read_request_def read_more.simps [of 0]
      release_def)

text \<open>
  Claim C6, as amended.  When the first \<open>recv\<close> returns no data (the peer
  has closed, or an error), the worker sends nothing and closes the socket.
  When a later \<open>recv\<close> returns no data, or the buffer holds \<open>MAX_BYTES - 1\<close>
  bytes, before the blank line is seen, the read loop stops with the bytes
  accumulated so far, and the worker treats them as the request: it answers
  400 when the cache lookup misses and the parser rejects them.
\<close>

theorem receive_failure_handling:
  "(buffer_ok a \<and> (client_in a = [] \<or> (\<exists>rest. client_in a = Error # rest)) \<longrightarrow>
      fst (worker_item a c g) = [Shutdown c, Close c, Signal_connection_available])
   \<and> read_more n buf [] = (n, buf)
   \<and> read_more n buf (Error # rest') = (n, buf)
   \<and> (MAX_BYTES - 1 \<le> strlen buf \<longrightarrow> read_more n buf inp = (n, buf))
   \<and> (buffer_ok a \<and> read_request (client_in a) = (m, buffer) \<and> 0 < m \<and> temp_req_ok a
        \<and> fst (find_in_cache (lookup_time a) (c_str buffer) (cache g)) = None
        \<and> ParsedRequest_parse (c_str buffer) = None \<longrightarrow>
      fst (worker_item a c g) =
        sendErrorMessage (date_text a) c 400
          @ [Shutdown c, Close c, Signal_connection_available])"
  using worker_item_no_data [of a c g] read_request_no_data [of "client_in a"]
    read_more_closed [of n buf] read_more_error [of n buf rest'] read_more_full [of buf n inp]
    worker_item_rejected [of a m buffer g c]
  by blast

lemma c_str_GET: "c_str ''GET'' = ''GET''"
  by (simp add: c_str_def NUL_def)

lemma parse_GET: "ParsedRequest_parse ''GET'' = None"
  by (simp add: ParsedRequest_parse_def split_line_def CR_def LF_def)

theorem receive_failure_handling_witness:
  "buffer_ok (arrival_of [Bytes ''GET''] [])
   \<and> read_request (client_in (arrival_of [Bytes ''GET''] [])) = (3, ''GET'')
   \<and> temp_req_ok (arrival_of [Bytes ''GET''] [])
   \<and> fst (find_in_cache (lookup_time (arrival_of [Bytes ''GET''] [])) (c_str ''GET'')
          (cache init_globals)) = None
   \<and> ParsedRequest_parse (c_str ''GET'') = None
   \<and> fst (worker_item (arrival_of [Bytes ''GET''] []) 5 init_globals) =
       sendErrorMessage ''Mon, 02 Nov 2026 10:00:00 GMT'' 5 400
         @ [Shutdown 5, Close 5, Signal_connection_available]"
proof -
  let ?a = "arrival_of [Bytes ''GET''] []"
  have h1: "buffer_ok ?a" and h4: "temp_req_ok ?a"
    by (simp_all add: arrival_of_def)
  have h2: "read_request (client_in ?a) = (3, ''GET'')"
    by (simp add: arrival_of_def read_request_def MAX_BYTES_def read_more_closed)
  have h5: "fst (find_in_cache (lookup_time ?a) (c_str ''GET'') (cache init_globals)) = None"
    by (simp add: find_in_cache_def init_globals_def init_cache_def)
  have h6: "ParsedRequest_parse (c_str ''GET'') = None"
    by (simp add: c_str_GET parse_GET)
  have d: "date_text ?a = ''Mon, 02 Nov 2026 10:00:00 GMT''"
    by (simp add: arrival_of_def)
  from receive_failure_handling [of ?a 5 init_globals 0 "[]" "[]" "[]" 3 "''GET''"] h1 h2 h4 h5 h6
  have "fst (worker_item ?a 5 init_globals) =
      sendErrorMessage (date_text ?a) 5 400 @ [Shutdown 5, Close 5, Signal_connection_available]"
    by fastforce
  then show ?thesis using h1 h2 h4 h5 h6 d by simp
qed


theorem admission_counter_bounds_witness:
  "reachable (init_system\<lparr>shared := init_globals\<lparr>active_connection_count := 1\<rparr>,
                           admitted := Some (5, 0)\<rparr>)
   \<and> 0 \<le> active_connection_count (shared (init_system\<lparr>shared := init_globals\<lparr>active_connection_count := 1\<rparr>,
                           admitted := Some (5, 0)\<rparr>))
   \<and> active_connection_count (shared (init_system\<lparr>shared := init_globals\<lparr>active_connection_count := 1\<rparr>,
                           admitted := Some (5, 0)\<rparr>)) \<le> MAX_CLIENTS"
proof -
  let ?s = "init_system\<lparr>shared := init_globals\<lparr>active_connection_count := 1\<rparr>,
                           admitted := Some (5, 0)\<rparr>"
  have a: "admission [] 5 (shared init_system) =
      (True, [], init_globals\<lparr>active_connection_count := 1\<rparr>)"
    by (simp add: admission_def init_system_def init_globals_def MAX_CLIENTS_def)
  have n: "admitted init_system = None" by (simp add: init_system_def)
  from step.accept_client [OF n a, of 0]
  have "step init_system ?s" by simp
  then have h: "reachable ?s" unfolding reachable_def by (rule r_into_rtranclp)
  from admission_counter_bounds [OF h] h show ?thesis by blast
qed

subsection \<open>An oversize response\<close>

lemma length_concat_replicate: "length (concat (replicate n xs)) = n * length xs"
  by (induction n) auto

lemma capture_length:
  "total_received st = int (length (response_buffer st)) \<Longrightarrow>
   total_received (capture chunk st) = int (length (response_buffer (capture chunk st)))"
  by (simp add: capture_def Let_def)

lemma tee_loop_length:
  "total_received st = int (length (response_buffer st)) \<Longrightarrow>
   total_received (fst (tee_loop c fwd k inp st)) =
     int (length (response_buffer (fst (tee_loop c fwd k inp st))))"
proof (induction c fwd k inp st rule: tee_loop.induct)
  case (1 c fwd k inp st)
  obtain r chunk inp' where rc: "recv (MAX_BYTES - 1) inp = (r, chunk, inp')"
    by (cases "recv (MAX_BYTES - 1) inp") auto
  show ?case
  proof (cases "0 < r \<and> \<not> fwd k < 0")
    case True
    obtain st' ev where rec: "tee_loop c fwd (Suc k) inp' (capture chunk st) = (st', ev)"
      by (cases "tee_loop c fwd (Suc k) inp' (capture chunk st)") auto
    have "total_received (fst (tee_loop c fwd (Suc k) inp' (capture chunk st))) =
        int (length (response_buffer (fst (tee_loop c fwd (Suc k) inp' (capture chunk st)))))"
      using "1.IH" [of r "(chunk, inp')" chunk inp'] rc True capture_length [OF "1.prems"]
      by simp
    then have "total_received st' = int (length (response_buffer st'))" by (simp add: rec)
    moreover have "fst (tee_loop c fwd k inp st) = st'"
      using True rc rec by (subst tee_loop.simps) simp
    ultimately show ?thesis by simp
  next
    case False
    then show ?thesis using rc "1.prems"
      by (subst (1 2) tee_loop.simps) (auto split: prod.splits)
  qed
qed

lemma tee_loop_chunk:
  assumes "chunk \<noteq> []" "length chunk \<le> MAX_BYTES - 1" "0 \<le> fwd k"
  shows "tee_loop c fwd k (Bytes chunk # rest) st =
     (fst (tee_loop c fwd (Suc k) rest (capture chunk st)),
      Send c chunk # snd (tee_loop c fwd (Suc k) rest (capture chunk st)))"
proof -
  have "recv (MAX_BYTES - 1) (Bytes chunk # rest) = (int (length chunk), chunk, rest)"
    using assms(1,2) by (cases chunk) auto
  then show ?thesis using assms(1,3)
    by (subst tee_loop.simps) (simp split: prod.splits)
qed

lemma tee_loop_end: "tee_loop c fwd k [] st = (st, [])"
  by (subst tee_loop.simps) simp

lemma capture_fits:
  assumes "total_received st + int (length chunk) < buffer_size st"
    and "buffer_size st \<le> allocated st"
  shows "capture chunk st =
     st\<lparr>response_buffer := response_buffer st @ chunk,
        total_received := total_received st + int (length chunk)\<rparr>"
  using assms by (simp add: capture_def Let_def)

lemma capture_full:
  assumes "\<not> total_received st + int (length chunk) < buffer_size st"
    and "total_received st < MAX_ELEMENT_SIZE" and "MAX_ELEMENT_SIZE \<le> buffer_size st"
  shows "capture chunk st =
     st\<lparr>buffer_size := total_received st + int (length chunk) + int MAX_BYTES\<rparr>"
  using assms by (simp add: capture_def Let_def MAX_BYTES_def)

lemma tee_loop_replicate:
  assumes "chunk \<noteq> []" "length chunk \<le> MAX_BYTES - 1" "\<forall>k. 0 \<le> fwd k"
    and "total_received st + int n * int (length chunk) < buffer_size st"
    and "buffer_size st \<le> allocated st"
  shows "tee_loop c fwd k (replicate n (Bytes chunk) @ rest) st =
     (fst (tee_loop c fwd (k + n) rest
        (st\<lparr>response_buffer := response_buffer st @ concat (replicate n chunk),
            total_received := total_received st + int n * int (length chunk)\<rparr>)),
      replicate n (Send c chunk) @
      snd (tee_loop c fwd (k + n) rest
        (st\<lparr>response_buffer := response_buffer st @ concat (replicate n chunk),
            total_received := total_received st + int n * int (length chunk)\<rparr>)))"
  using assms(4,5)
proof (induction n arbitrary: k st)
  case 0
  then show ?case by simp
next
  case (Suc n)
  let ?st1 = "st\<lparr>response_buffer := response_buffer st @ chunk,
        total_received := total_received st + int (length chunk)\<rparr>"
  have lt: "total_received st + int (length chunk) < buffer_size st"
  proof -
    have "0 \<le> int n * int (length chunk)" by simp
    moreover have "total_received st + (int (length chunk) + int n * int (length chunk))
        < buffer_size st"
      using Suc.prems(1) by (simp add: distrib_right)
    ultimately show ?thesis by linarith
  qed
  have cap: "capture chunk st = ?st1" using lt Suc.prems(2) by (rule capture_fits)
  have p1: "total_received ?st1 + int n * int (length chunk) < buffer_size ?st1"
    using Suc.prems(1) by (simp add: distrib_right)
  have p2: "buffer_size ?st1 \<le> allocated ?st1" using Suc.prems(2) by simp
  have eq: "?st1\<lparr>response_buffer := response_buffer ?st1 @ concat (replicate n chunk),
            total_received := total_received ?st1 + int n * int (length chunk)\<rparr>
      = st\<lparr>response_buffer := response_buffer st @ concat (replicate (Suc n) chunk),
            total_received := total_received st + int (Suc n) * int (length chunk)\<rparr>"
    by (simp add: distrib_right)
  have "tee_loop c fwd k (replicate (Suc n) (Bytes chunk) @ rest) st =
      (fst (tee_loop c fwd (Suc k) (replicate n (Bytes chunk) @ rest) ?st1),
       Send c chunk # snd (tee_loop c fwd (Suc k) (replicate n (Bytes chunk) @ rest) ?st1))"
    using tee_loop_chunk [OF assms(1,2), of fwd k c "replicate n (Bytes chunk) @ rest" st]
      assms(3) cap by simp
  also have "\<dots> =
     (fst (tee_loop c fwd (k + Suc n) rest
        (st\<lparr>response_buffer := response_buffer st @ concat (replicate (Suc n) chunk),
            total_received := total_received st + int (Suc n) * int (length chunk)\<rparr>)),
      replicate (Suc n) (Send c chunk) @
      snd (tee_loop c fwd (k + Suc n) rest
        (st\<lparr>response_buffer := response_buffer st @ concat (replicate (Suc n) chunk),
            total_received := total_received st + int (Suc n) * int (length chunk)\<rparr>)))"
    unfolding Suc.IH [OF p1 p2, of "Suc k"] eq by simp
  finally show ?case .
qed

lemma sent_to_append: "sent_to fd (xs @ ys) = sent_to fd xs @ sent_to fd ys"
  by (induction fd xs rule: sent_to.induct) auto

lemma sent_to_replicate: "sent_to fd (replicate n (Send fd bs)) = concat (replicate n bs)"
  by (induction n) auto

lemma delivered_replicate:
  "delivered (replicate n (Bytes bs) @ rest) = concat (replicate n bs) @ delivered rest"
  by (induction n) auto

lemma get_pooled_connection_init:
  "get_pooled_connection now h p init_connection_pool = (- 1, [], init_connection_pool)"
  by (simp add: get_pooled_connection_def init_connection_pool_def)

lemma connectRemoteServer_init:
  "connectRemoteServer (exchange_of chunks) h p init_connection_pool =
     (9, [], init_connection_pool)"
  by (simp add: connectRemoteServer_def get_pooled_connection_init exchange_of_def)

lemma return_pooled_connection_init:
  "fst (return_pooled_connection now r h p init_connection_pool) = []"
proof -
  have "replicate 100 \<lparr>slot_socket = - 1, slot_host = None, slot_port = 0, slot_last_used = 0\<rparr>
      = \<lparr>slot_socket = - 1, slot_host = None, slot_port = 0, slot_last_used = 0\<rparr>
        # replicate 99 \<lparr>slot_socket = - 1, slot_host = None, slot_port = 0, slot_last_used = 0\<rparr>"
    by (simp add: replicate_Suc [symmetric] del: replicate_Suc)
  then show ?thesis
    by (simp add: return_pooled_connection_def init_connection_pool_def)
qed

lemma chunk_size_at_nonneg: "0 \<le> chunk_size_at chunks k"
  by (induction chunks k rule: chunk_size_at.induct) auto

lemma oversize_tee:
  assumes f: "\<forall>k. 0 \<le> fwd k"
  shows "tee_loop 5 fwd 0 oversize_response tee_init =
     (\<lparr>total_received = 10484480, buffer_size = 10493953, allocated = MAX_ELEMENT_SIZE,
       response_buffer = concat (replicate 1280 (replicate 8191 (CHR ''x''))),
       overrun = False\<rparr>,
      replicate 1280 (Send 5 (replicate 8191 (CHR ''x'')))
        @ [Send 5 (replicate 1281 (CHR ''x''))])"
proof -
  let ?X = "replicate 8191 (CHR ''x'')"
  let ?Y = "replicate 1281 (CHR ''x'')"
  let ?st1 = "tee_init\<lparr>response_buffer := response_buffer tee_init @ concat (replicate 1280 ?X),
       total_received := total_received tee_init + int 1280 * int (length ?X)\<rparr>"
  have x: "?X \<noteq> []" "length ?X \<le> MAX_BYTES - 1" by (simp_all add: MAX_BYTES_def)
  have y: "?Y \<noteq> []" "length ?Y \<le> MAX_BYTES - 1" by (simp_all add: MAX_BYTES_def)
  have room: "total_received tee_init + int 1280 * int (length ?X) < buffer_size tee_init"
    by (simp add: tee_init_def MAX_ELEMENT_SIZE_def)
  have al: "buffer_size tee_init \<le> allocated tee_init" by (simp add: tee_init_def)
  have st1: "?st1 = \<lparr>total_received = 10484480, buffer_size = MAX_ELEMENT_SIZE,
       allocated = MAX_ELEMENT_SIZE, response_buffer = concat (replicate 1280 ?X),
       overrun = False\<rparr>"
    by (simp add: tee_init_def)
  have cap: "capture ?Y ?st1 = \<lparr>total_received = 10484480, buffer_size = 10493953,
       allocated = MAX_ELEMENT_SIZE, response_buffer = concat (replicate 1280 ?X),
       overrun = False\<rparr>"
    unfolding st1 by (simp add: capture_def Let_def MAX_ELEMENT_SIZE_def MAX_BYTES_def)
  have last: "tee_loop 5 fwd (0 + 1280) [Bytes ?Y] ?st1 =
      (capture ?Y ?st1, [Send 5 ?Y])"
    using tee_loop_chunk [OF y, of fwd "0 + 1280" 5 "[]" ?st1] f
    by (simp add: tee_loop_end)
  show ?thesis
    unfolding oversize_response_def
      tee_loop_replicate [OF x f room al, of 5 0 "[Bytes ?Y]"] last cap
    by simp
qed

lemma example_request_facts:
  "c_str example_request = example_request"
  "length example_request = 55"
  "strstr (c_str example_request) [CR, LF, CR, LF] = Some 51"
  "ParsedRequest_parse example_request =
     Some \<lparr>method' = Some ''GET'', protocol = Some ''http'', host = Some ''example.com'',
           port = Some ''80'', path = Some [], version = Some ''HTTP/1.1'',
           headers = [(''Host'', ''example.com'')]\<rparr>"
  by code_simp+

lemma oversize_add_to_cache:
  assumes empty: "cache_list c = []" "cache_size c = 0"
  shows "add_to_cache True 100 100 (concat (replicate 1280 (replicate 8191 (CHR ''x'')))) example_request c =
      (1, c\<lparr>cache_list := [\<lparr>data = concat (replicate 1280 (replicate 8191 (CHR ''x''))), len = 10484480, url = example_request,
           lru_time_track = 100, creation_time = 100, access_count = 1\<rparr>],
        cache_size := 10484599\<rparr>)"
proof -
  have l: "int (length (concat (replicate 1280 (replicate 8191 (CHR ''x''))))) = 10484480"
    by (simp add: length_concat_replicate)
  have es: "int (length (concat (replicate 1280 (replicate 8191 (CHR ''x'')))))
      + int (length example_request) + sizeof_cache_element = 10484599"
    by (simp add: l example_request_facts(2) sizeof_cache_element_def)
  have ms: "make_space 10484599 c = c"
    by (rule make_space_stop) (simp add: empty)
  show ?thesis
    unfolding add_to_cache_def Let_def
    by (simp add: l example_request_facts(2) sizeof_cache_element_def MAX_ELEMENT_SIZE_def ms empty)
qed

lemma oversize_handle:
  assumes pool: "conn_pool g = init_connection_pool"
    and empty: "cache_list (cache g) = []" "cache_size (cache g) = 0"
  shows "fst (handle_request_optimized (exchange_of oversize_response) 5 h po example_request g) = 0"
    and "fst (snd (handle_request_optimized (exchange_of oversize_response) 5 h po example_request g)) =
      replicate 1280 (Send 5 (replicate 8191 (CHR ''x''))) @ [Send 5 (replicate 1281 (CHR ''x''))]"
    and "cache_list (cache (snd (snd
        (handle_request_optimized (exchange_of oversize_response) 5 h po example_request g)))) =
      [\<lparr>data = concat (replicate 1280 (replicate 8191 (CHR ''x''))), len = 10484480,
         url = example_request, lru_time_track = 100, creation_time = 100, access_count = 1\<rparr>]"
    and "active_connection_count (snd (snd
        (handle_request_optimized (exchange_of oversize_response) 5 h po example_request g))) =
      active_connection_count g"
proof -
  let ?x = "exchange_of oversize_response"
  let ?port = "case po of Some p \<Rightarrow> atoi p | None \<Rightarrow> 80"
  let ?buf = "concat (replicate 1280 (replicate 8191 (CHR ''x'')))"
  have x: "send_buffer_ok ?x" "upstream_sent ?x = 1" "response_buffer_ok ?x"
    "forwarded ?x = chunk_size_at oversize_response" "upstream_in ?x = oversize_response" "cache_malloc_ok ?x"
    "cache_time ?x = 100" "cache_time' ?x = 100"
    by (simp_all add: exchange_of_def)
  have con: "connectRemoteServer ?x h ?port (conn_pool g) = (9, [], init_connection_pool)"
    by (simp add: pool connectRemoteServer_init)
  obtain p3 where ret:
    "return_pooled_connection (return_time ?x) 9 h ?port init_connection_pool = ([], p3)"
    using return_pooled_connection_init [of "return_time ?x" 9 h ?port]
    by (cases "return_pooled_connection (return_time ?x) 9 h ?port init_connection_pool") simp
  note add = oversize_add_to_cache [OF empty]
  have tee: "tee_loop 5 (chunk_size_at oversize_response) 0 oversize_response tee_init =
     (\<lparr>total_received = 10484480, buffer_size = 10493953, allocated = MAX_ELEMENT_SIZE,
       response_buffer = ?buf, overrun = False\<rparr>,
      replicate 1280 (Send 5 (replicate 8191 (CHR ''x'')))
        @ [Send 5 (replicate 1281 (CHR ''x''))])"
    by (rule oversize_tee) (simp add: chunk_size_at_nonneg)
  have h: "handle_request_optimized ?x 5 h po example_request g =
      (0, replicate 1280 (Send 5 (replicate 8191 (CHR ''x''))) @ [Send 5 (replicate 1281 (CHR ''x''))],
       g\<lparr>conn_pool := init_connection_pool,
         cache := (cache g)\<lparr>cache_list := [\<lparr>data = ?buf, len = 10484480, url = example_request,
               lru_time_track = 100, creation_time = 100, access_count = 1\<rparr>],
             cache_size := 10484599,
             stats_bytes_served := stats_bytes_served (cache g) + 10484480,
             stats_total_requests := stats_total_requests (cache g) + 1\<rparr>,
         conn_pool := p3\<rparr>)"
    unfolding handle_request_optimized_def Let_def con
    by (simp add: x tee ret add)
  show "fst (handle_request_optimized ?x 5 h po example_request g) = 0"
    by (simp add: h)
  show "fst (snd (handle_request_optimized ?x 5 h po example_request g)) =
      replicate 1280 (Send 5 (replicate 8191 (CHR ''x''))) @ [Send 5 (replicate 1281 (CHR ''x''))]"
    by (simp add: h)
  show "cache_list (cache (snd (snd (handle_request_optimized ?x 5 h po example_request g)))) =
      [\<lparr>data = ?buf, len = 10484480, url = example_request, lru_time_track = 100,
         creation_time = 100, access_count = 1\<rparr>]"
    by (simp add: h)
  show "active_connection_count (snd (snd (handle_request_optimized ?x 5 h po example_request g))) =
      active_connection_count g"
    by (simp add: h)
qed

lemma first_fetch_result:
  "fst first_fetch =
     replicate 1280 (Send 5 (replicate 8191 (CHR ''x''))) @ [Send 5 (replicate 1281 (CHR ''x''))]
       @ [Shutdown 5, Close 5, Signal_connection_available]"
  "cache_list (cache (snd first_fetch)) =
     [\<lparr>data = captured_part, len = 10484480, url = example_request, lru_time_track = 100,
        creation_time = 100, access_count = 1\<rparr>]"
  "active_connection_count (snd first_fetch) = 0"
proof -
  let ?a = "arrival_of [Bytes example_request] oversize_response"
  let ?g0 = "init_globals\<lparr>active_connection_count := 1\<rparr>"
  let ?g1 = "?g0\<lparr>cache := init_cache\<lparr>stats_cache_misses := 1\<rparr>\<rparr>"
  let ?h = "handle_request_optimized (exchange_of oversize_response) 5 ''example.com''
      (Some ''80'') example_request ?g1"
  have a: "buffer_ok ?a" "temp_req_ok ?a" "client_in ?a = [Bytes example_request]"
    "lookup_time ?a = 100" "fetch ?a = exchange_of oversize_response"
    by (simp_all add: arrival_of_def)
  have rr: "read_request (client_in ?a) = (55, example_request)"
    by (simp add: a read_request_def MAX_BYTES_def example_request_facts(2) read_more_closed)
  have miss: "find_in_cache 100 example_request (cache ?g0) =
      (None, init_cache\<lparr>stats_cache_misses := 1\<rparr>)"
    by (simp add: find_in_cache_def init_globals_def init_cache_def)
  have g1: "conn_pool ?g1 = init_connection_pool" "cache_list (cache ?g1) = []"
    "cache_size (cache ?g1) = 0"
    by (simp_all add: init_globals_def init_cache_def)
  note oh = oversize_handle [OF g1, of "''example.com''" "Some ''80''"]
  obtain ev g2 where h: "?h = (0, ev, g2)"
    using oh(1) by (cases ?h) auto
  have ev: "ev = replicate 1280 (Send 5 (replicate 8191 (CHR ''x'')))
      @ [Send 5 (replicate 1281 (CHR ''x''))]"
    using oh(2) h by simp
  have g2: "cache_list (cache g2) =
      [\<lparr>data = captured_part, len = 10484480, url = example_request, lru_time_track = 100,
         creation_time = 100, access_count = 1\<rparr>]"
    "active_connection_count g2 = 1"
    using oh(3,4) h by (simp_all add: captured_part_def)
  have s: "serve ?a 5 example_request ?g0 = (ev, g2)"
    unfolding serve_def Let_def example_request_facts(1) a miss
    by (simp add: example_request_facts(4) h)
  have w: "first_fetch =
      (ev @ [Shutdown 5, Close 5, Signal_connection_available],
       g2\<lparr>active_connection_count := active_connection_count g2 - 1\<rparr>)"
    unfolding first_fetch_def
    using worker_item_served [OF a(1) rr _ a(2), of 5 ?g0] s by simp
  show "fst first_fetch =
     replicate 1280 (Send 5 (replicate 8191 (CHR ''x''))) @ [Send 5 (replicate 1281 (CHR ''x''))]
       @ [Shutdown 5, Close 5, Signal_connection_available]"
    by (simp add: w ev)
  show "cache_list (cache (snd first_fetch)) =
     [\<lparr>data = captured_part, len = 10484480, url = example_request, lru_time_track = 100,
        creation_time = 100, access_count = 1\<rparr>]"
    by (simp add: w g2)
  show "active_connection_count (snd first_fetch) = 0"
    by (simp add: w g2)
qed

text \<open>
  Claim C1 fails on the code.  The upstream server answers the request of
  S1 with \<open>MAX_ELEMENT_SIZE + 1\<close> bytes.  The client gets all of them, but
  the worker has kept the first 10484480 of them in its buffer and passes
  these to \<open>add_to_cache\<close>, which stores them, since with the key they are
  below \<open>MAX_ELEMENT_SIZE\<close>.  The same request again is a cache hit and is
  answered from the cache, with the shortened bytes and no upstream fetch.
\<close>

theorem oversize_response_cached_truncated:
  "length (delivered oversize_response) = nat MAX_ELEMENT_SIZE + 1
   \<and> sent_to 5 (fst first_fetch) = delivered oversize_response
   \<and> cache_list (cache (snd first_fetch)) =
       [\<lparr>data = captured_part, len = 10484480, url = example_request, lru_time_track = 100,
          creation_time = 100, access_count = 1\<rparr>]
   \<and> length captured_part = 10484480
   \<and> fst (find_in_cache t example_request (cache (snd first_fetch))) =
       Some \<lparr>data = captured_part, len = 10484480, url = example_request, lru_time_track = t,
             creation_time = 100, access_count = 2\<rparr>
   \<and> fst (serve a 5 example_request (snd first_fetch)) =
       send_cached 5 (hit_sent a) 0
         \<lparr>data = captured_part, len = 10484480, url = example_request,
           lru_time_track = lookup_time a, creation_time = 100, access_count = 2\<rparr> 0"
proof -
  let ?e = "\<lparr>data = captured_part, len = 10484480, url = example_request, lru_time_track = 100,
          creation_time = 100, access_count = 1\<rparr>"
  have d: "delivered oversize_response =
      concat (replicate 1280 (replicate 8191 (CHR ''x''))) @ replicate 1281 (CHR ''x'')"
    by (simp add: oversize_response_def delivered_replicate)
  have l: "length (delivered oversize_response) = nat MAX_ELEMENT_SIZE + 1"
    by (simp add: d length_concat_replicate MAX_ELEMENT_SIZE_def)
  have s: "sent_to 5 (fst first_fetch) = delivered oversize_response"
    by (simp add: first_fetch_result(1) sent_to_append sent_to_replicate d)
  have c: "length captured_part = 10484480"
    by (simp add: captured_part_def length_concat_replicate)
  have i: "find_index_from example_request (cache_list (cache (snd first_fetch))) 0 = Some 0"
    by (simp add: first_fetch_result(2))
  have f: "find_in_cache t' example_request (cache (snd first_fetch)) =
      (Some (?e\<lparr>lru_time_track := t', access_count := 2\<rparr>),
       (cache (snd first_fetch))\<lparr>cache_list := [?e\<lparr>lru_time_track := t', access_count := 2\<rparr>],
          stats_cache_hits := stats_cache_hits (cache (snd first_fetch)) + 1\<rparr>)" for t'
    using find_in_cache_Some [OF i, of t'] by (simp add: first_fetch_result(2) unlink_def)
  have v: "fst (serve a 5 example_request (snd first_fetch)) =
      send_cached 5 (hit_sent a) 0 (?e\<lparr>lru_time_track := lookup_time a, access_count := 2\<rparr>) 0"
    unfolding serve_def Let_def example_request_facts(1) f by simp
  show ?thesis using l s c f [of t] v first_fetch_result(2) by simp
qed

end
